(* ===== verification/Lexec_Prelude.thy ===== *)
theory Lexec_Prelude
  imports Main "HOL-Library.Word" "HOL-Library.Sublist" "HOL-Library.Char_ord"
begin

text \<open>
  What every component of the daemon and of the client uses: machine integers, the
  outcome of running a piece of C, the string functions of the C library the source
  calls, and an open file description.

  C strings are \<open>char list\<close>s without their terminating NUL. A C \<open>int\<close> is an
  \<open>int\<close>; where the source computes with one so that it may overflow, the operation
  is \<open>c_mul\<close> and an overflow (undefined in C) is \<open>None\<close>. Unsigned counters and
  bytes are words.
\<close>

unbundle bit_operations_syntax

named_theorems clib_simps

type_synonym u8 = "8 word"
type_synonym u32 = "32 word"
type_synonym u64 = "64 word"

section \<open>Outcomes\<close>

text \<open>
  Running a function returns, waits for ever on a condition variable, or does something C
  leaves undefined (signed overflow, use of an indeterminate value).
\<close>

datatype 'a outcome = Ret 'a | Blocked | Undef

primrec bind_outcome :: "'a outcome \<Rightarrow> ('a \<Rightarrow> 'b outcome) \<Rightarrow> 'b outcome" where
  "bind_outcome (Ret x) f = f x"
| "bind_outcome Blocked f = Blocked"
| "bind_outcome Undef f = Undef"

lemma bind_outcome_Ret_iff:
  "bind_outcome m f = Ret y \<longleftrightarrow> (\<exists>x. m = Ret x \<and> f x = Ret y)"
  by (cases m) auto

lemma bind_outcome_assoc:
  "bind_outcome (bind_outcome m f) g = bind_outcome m (\<lambda>x. bind_outcome (f x) g)"
  by (cases m) auto

lemma bind_outcome_eqI: "(\<And>x. m = Ret x \<Longrightarrow> f x = g x) \<Longrightarrow> bind_outcome m f = bind_outcome m g"
  by (cases m) auto

section \<open>C integers\<close>

definition c_int_ok :: "int \<Rightarrow> bool" where
  "c_int_ok x \<longleftrightarrow> - (2 ^ 31) \<le> x \<and> x < 2 ^ 31"

definition c_mul :: "int \<Rightarrow> int \<Rightarrow> int option" where
  "c_mul a b = (if c_int_ok (a * b) then Some (a * b) else None)"

lemma c_mul_Some [clib_simps]: "c_mul a b = Some c \<longleftrightarrow> c = a * b \<and> c_int_ok (a * b)"
  by (auto simp: c_mul_def)

lemma unat_u32: "unat (w :: u32) < 2 ^ 32"
proof -
  have "unat w < 2 ^ LENGTH(32)" by (rule unsigned_less)
  then show ?thesis by simp
qed

section \<open>String functions of the C library\<close>

text \<open>\<open>strncmp (s, t, n) == 0\<close>.\<close>

fun strncmp_eq :: "string \<Rightarrow> string \<Rightarrow> nat \<Rightarrow> bool" where
  "strncmp_eq s t 0 = True"
| "strncmp_eq [] [] (Suc n) = True"
| "strncmp_eq (a # s) (b # t) (Suc n) = (a = b \<and> strncmp_eq s t n)"
| "strncmp_eq s t (Suc n) = False"

lemma strncmp_eq_prefix [clib_simps]: "strncmp_eq s t (length t) \<longleftrightarrow> prefix t s"
proof (induction t arbitrary: s)
  case Nil
  then show ?case by simp
next
  case (Cons b t)
  then show ?case by (cases s) auto
qed

text \<open>\<open>strrchr (s, c)\<close>: the suffix that starts at the last \<open>c\<close>.\<close>

fun strrchr :: "char \<Rightarrow> string \<Rightarrow> string option" where
  "strrchr c [] = None"
| "strrchr c (x # xs) =
     (case strrchr c xs of
        Some t \<Rightarrow> Some t
      | None \<Rightarrow> if x = c then Some (x # xs) else None)"

lemma strrchr_None [clib_simps]: "strrchr c s = None \<longleftrightarrow> c \<notin> set s"
  by (induction s) (auto split: option.splits)

lemma strrchr_append: "strrchr c (s @ t) =
   (case strrchr c t of
      Some u \<Rightarrow> Some u
    | None \<Rightarrow> map_option (\<lambda>u. u @ t) (strrchr c s))"
  by (induction s) (auto split: option.splits)

lemma strrchr_suffix: "strrchr c s = Some t \<Longrightarrow> suffix t s"
  by (induction s arbitrary: t) (auto split: option.splits if_splits simp: suffix_Cons)

text \<open>\<open>strstr (s, t)\<close>: the suffix that starts at the first occurrence of \<open>t\<close>.\<close>

fun strstr :: "string \<Rightarrow> string \<Rightarrow> string option" where
  "strstr [] t = (if t = [] then Some [] else None)"
| "strstr (x # xs) t = (if prefix t (x # xs) then Some (x # xs) else strstr xs t)"

lemma strstr_sublist [clib_simps]: "strstr s t \<noteq> None \<longleftrightarrow> sublist t s"
  by (induction s) (auto simp: sublist_Cons_right)

text \<open>
  One call of \<open>strtok_r\<close> with a single delimiter: the next token and the rest of the
  string after the delimiter that ended it.
\<close>

definition strtok_r :: "char \<Rightarrow> string \<Rightarrow> (string \<times> string) option" where
  "strtok_r d s =
     (let t = dropWhile (\<lambda>c. c = d) s in
      if t = [] then None
      else Some (takeWhile (\<lambda>c. c \<noteq> d) t, drop 1 (dropWhile (\<lambda>c. c \<noteq> d) t)))"

lemma strtok_r_shorter: "strtok_r d s = Some (tok, rest) \<Longrightarrow> length rest < length s"
proof -
  assume a: "strtok_r d s = Some (tok, rest)"
  define t where "t = dropWhile (\<lambda>c. c = d) s"
  have t: "t \<noteq> []" and rest: "rest = drop 1 (dropWhile (\<lambda>c. c \<noteq> d) t)"
    using a by (auto simp: strtok_r_def Let_def t_def split: if_splits)
  have "hd t \<noteq> d" using t hd_dropWhile [of "\<lambda>c. c = d" s] by (simp add: t_def)
  then obtain x xs where tx: "t = x # xs" "x \<noteq> d" using t by (cases t) auto
  have "length (dropWhile (\<lambda>c. c \<noteq> d) xs) \<le> length xs" by (rule length_dropWhile_le)
  then have "length rest < length t" using tx rest by auto
  moreover have "length t \<le> length s" by (simp add: t_def length_dropWhile_le)
  ultimately show ?thesis by simp
qed

definition isspace :: "char \<Rightarrow> bool" where
  "isspace c \<longleftrightarrow> c = CHR '' '' \<or> (9 \<le> (of_char c :: nat) \<and> (of_char c :: nat) \<le> 13)"

definition isdigit :: "char \<Rightarrow> bool" where
  "isdigit c \<longleftrightarrow> 48 \<le> (of_char c :: nat) \<and> (of_char c :: nat) \<le> 57"

definition digit_value :: "char \<Rightarrow> int" where
  "digit_value c = of_char c - 48"

text \<open>
  \<open>atoi\<close>: the decimal number at the start of the string, read as a \<open>long\<close> that stops
  at its bounds and then converted to \<open>int\<close>.
\<close>

definition decimal :: "string \<Rightarrow> int" where
  "decimal s = foldl (\<lambda>a c. 10 * a + digit_value c) 0 (takeWhile isdigit s)"

definition strtol10 :: "string \<Rightarrow> int" where
  "strtol10 s =
     (let t = dropWhile isspace s;
          v = (case t of
                 [] \<Rightarrow> 0
               | c # r \<Rightarrow> if c = CHR ''-'' then - decimal r
                         else if c = CHR ''+'' then decimal r
                         else decimal t)
      in max (- (2 ^ 63)) (min (2 ^ 63 - 1) v))"

definition atoi :: "string \<Rightarrow> int" where
  "atoi s = signed_take_bit 31 (strtol10 s)"

lemma atoi_range: "c_int_ok (atoi s)"
  using signed_take_bit_int_less_exp [of 31 "strtol10 s"]
    signed_take_bit_int_greater_eq_minus_exp [of 31 "strtol10 s"]
  by (simp add: atoi_def c_int_ok_def)

section \<open>Lists indexed by words\<close>

lemma nth_update_cases:
  "i < length xs \<Longrightarrow> xs[i := v] ! j = (if j = i then v else xs ! j)"
  by (cases "i = j") auto

lemma Union_nth: "(\<Union>c \<in> set xs. set c) = (\<Union>j < length xs. set (xs ! j))"
  by (force simp: in_set_conv_nth)

lemma Union_update:
  assumes "i < length xs"
  shows "(\<Union>c \<in> set (xs[i := c']). set c) =
         (\<Union>j \<in> {..<length xs} - {i}. set (xs ! j)) \<union> set c'"
proof -
  have "(\<Union>c \<in> set (xs[i := c']). set c) = (\<Union>j < length xs. set (xs[i := c'] ! j))"
    by (simp add: Union_nth)
  also have "\<dots> = (\<Union>j < length xs. if j = i then set c' else set (xs ! j))"
    using assms by (intro SUP_cong) (auto simp: nth_update_cases)
  also have "\<dots> = (\<Union>j \<in> {..<length xs} - {i}. set (xs ! j)) \<union> set c'"
    using assms by (auto split: if_splits)
  finally show ?thesis .
qed

lemma Union_update_Cons:
  "i < length xs \<Longrightarrow>
   (\<Union>c \<in> set (xs[i := d # xs ! i]). set c) = insert d (\<Union>c \<in> set xs. set c)"
  unfolding Union_update Union_nth [of xs] by auto

lemma Union_minus_one:
  assumes "i < n" and "B = A i - {x}" and "\<And>j. j < n \<Longrightarrow> j \<noteq> i \<Longrightarrow> x \<notin> A j"
  shows "(\<Union>j \<in> {..<n} - {i}. A j) \<union> B = (\<Union>j < n. A j) - {x}"
proof -
  have "(\<Union>j < n. A j) = (\<Union>j \<in> {..<n} - {i}. A j) \<union> A i" using assms(1) by blast
  moreover have "x \<notin> (\<Union>j \<in> {..<n} - {i}. A j)" using assms(3) by blast
  ultimately show ?thesis using assms(2) by blast
qed

lemma those_map_Some: "those (map (\<lambda>x. Some (f x)) xs) = Some (map f xs)"
  by (induction xs) auto

lemma those_length: "those xs = Some ys \<Longrightarrow> length ys = length xs"
  by (induction xs arbitrary: ys) (auto split: option.splits)

section \<open>Open file descriptions\<close>

text \<open>
  What \<open>read\<close> and \<open>lseek\<close> see of an open file: its bytes, the current position,
  whether it can be positioned at all, and what the kernel does on the next reads: fail,
  or deliver at most a given number of bytes (a short read). With no entry left a read
  delivers all that is asked for and there.
\<close>

datatype read_plan = Rd_error | Rd_limit nat

record fdesc =
  fd_content :: "u8 list"
  fd_pos :: nat
  fd_seekable :: bool
  fd_reads :: "read_plan list"

definition lseek_cur :: "fdesc \<Rightarrow> nat option" where
  "lseek_cur f = (if fd_seekable f then Some (fd_pos f) else None)"

definition lseek_set :: "fdesc \<Rightarrow> nat \<Rightarrow> fdesc \<times> bool" where
  "lseek_set f p = (if fd_seekable f then (f\<lparr>fd_pos := p\<rparr>, True) else (f, False))"

text \<open>\<open>read (fd, buf, n)\<close>: \<open>None\<close> is \<open>-1\<close>, the empty list is end of file.\<close>

definition read_fd :: "fdesc \<Rightarrow> nat \<Rightarrow> fdesc \<times> u8 list option" where
  "read_fd f n =
     (let avail = drop (fd_pos f) (fd_content f) in
      case fd_reads f of
        [] \<Rightarrow> (let bs = take n avail in (f\<lparr>fd_pos := fd_pos f + length bs\<rparr>, Some bs))
      | Rd_error # rs \<Rightarrow> (f\<lparr>fd_reads := rs\<rparr>, None)
      | Rd_limit k # rs \<Rightarrow>
          (let bs = take (min n (Suc k)) avail
           in (f\<lparr>fd_pos := fd_pos f + length bs, fd_reads := rs\<rparr>, Some bs)))"

lemma read_fd_frame:
  "read_fd f n = (f', r) \<Longrightarrow> fd_content f' = fd_content f \<and> fd_seekable f' = fd_seekable f"
  by (auto simp: read_fd_def Let_def split: list.splits read_plan.splits)

lemma take_min_length [simp]: "take (min (length xs) k) xs = take k xs"
  by (simp add: min_def)

lemma take_min_length_drop [simp]:
  "take (min (length xs - p) k) (drop p xs) = take k (drop p xs)"
  using take_min_length [of "drop p xs" k] by (simp del: take_min_length)

lemma read_fd_Some:
  "read_fd f n = (f', Some bs) \<Longrightarrow>
   fd_pos f' = fd_pos f + length bs \<and>
   bs = take (length bs) (drop (fd_pos f) (fd_content f)) \<and> length bs \<le> n"
  by (auto simp: read_fd_def Let_def split: list.splits read_plan.splits)

lemma read_fd_empty:
  "read_fd f n = (f', Some []) \<Longrightarrow> 0 < n \<Longrightarrow> length (fd_content f) \<le> fd_pos f"
  by (auto simp: read_fd_def Let_def split: list.splits read_plan.splits)

lemma read_fd_no_error:
  "Rd_error \<notin> set (fd_reads f) \<Longrightarrow> read_fd f n = (f', r) \<Longrightarrow>
   r \<noteq> None \<and> set (fd_reads f') \<subseteq> set (fd_reads f)"
  by (auto simp: read_fd_def Let_def split: list.splits read_plan.splits)

lemma read_fd_progress:
  assumes "read_fd f n = (f', Some bs)" and "bs \<noteq> []"
  shows "length (fd_content f') - fd_pos f' < length (fd_content f) - fd_pos f"
proof -
  have "length bs > 0" using assms(2) by simp
  moreover have "length bs \<le> length (fd_content f) - fd_pos f"
    using read_fd_Some [OF assms(1)] by (metis length_drop length_take min.cobounded1)
  ultimately have "length (fd_content f) - (fd_pos f + length bs) < length (fd_content f) - fd_pos f"
    by linarith
  then show ?thesis
    using read_fd_Some [OF assms(1)] read_fd_frame [OF assms(1)] by simp
qed

text \<open>
  \<open>fread (buf, 1, n, f)\<close> on a stream just opened: it reads until it has \<open>n\<close> bytes, the
  end of the file or an error.
\<close>

function fread :: "fdesc \<Rightarrow> nat \<Rightarrow> u8 list" where
  "fread f n =
     (if n = 0 then []
      else (case read_fd f n of
              (f', None) \<Rightarrow> []
            | (f', Some bs) \<Rightarrow> if bs = [] then [] else bs @ fread f' (n - length bs)))"
  by pat_completeness auto
termination
  by (relation "measure (\<lambda>(f, n). n)") (auto dest!: read_fd_Some [OF sym])

declare fread.simps [simp del]

lemma fread_content:
  "fread f n = bs \<Longrightarrow> bs = take (length bs) (drop (fd_pos f) (fd_content f)) \<and> length bs \<le> n"
proof (induction f n arbitrary: bs rule: fread.induct)
  case (1 f n)
  show ?case
  proof (cases "n = 0 \<or> bs = []")
    case True
    with "1.prems" show ?thesis by (auto simp: fread.simps [of f n])
  next
    case False
    then obtain g cs where rd: "read_fd f n = (g, Some cs)" and cs: "cs \<noteq> []"
      and bs: "bs = cs @ fread g (n - length cs)"
      using "1.prems"
      by (auto simp: fread.simps [of f n] split: prod.splits option.splits if_splits)
    define r where "r = fread g (n - length cs)"
    have r: "r = take (length r) (drop (fd_pos g) (fd_content g))" "length r \<le> n - length cs"
      using "1.IH" [OF _ rd [symmetric] refl cs, of r] False r_def by auto
    have g: "fd_pos g = fd_pos f + length cs" "fd_content g = fd_content f"
      "cs = take (length cs) (drop (fd_pos f) (fd_content f))" "length cs \<le> n"
      using read_fd_Some [OF rd] read_fd_frame [OF rd] by auto
    have "take (length cs + length r) (drop (fd_pos f) (fd_content f)) = cs @ r"
      using g r(1) by (metis add.commute drop_drop take_add)
    then show ?thesis using bs r(2) g(4) by (simp add: r_def)
  qed
qed

definition elf_magic :: "u8 list" where
  "elf_magic = [0x7f, 0x45, 0x4c, 0x46]"

lemma length_elf_magic [simp]: "length elf_magic = 4"
  by (simp add: elf_magic_def)

lemma fread_magic:
  assumes "fread f 4 = elf_magic" and "fd_pos f = 0"
  shows "prefix elf_magic (fd_content f)"
  using fread_content [OF assms(1)] assms(2) by (metis drop0 take_is_prefix)

end
