(* ===== verification/Digest_Store.thy ===== *)
theory Digest_Store
  imports Lexec_Prelude
begin

text \<open>
  The interface the event handlers rely on: a set of digests that can be checked, added to
  and removed from. The in-memory cache and the SQLite whitelist both provide it; the
  handlers look a digest up in the first and then in the second. The laws speak of the
  abstract set \<open>members\<close>, never of how a store keeps it.
\<close>

section \<open>A store of digests\<close>

text \<open>
  \<open>check\<close>, \<open>add\<close> and \<open>remove\<close> return the new state of the store and whether they
  answered yes or succeeded. A check never claims a digest that is not there; a failed
  addition or removal leaves the set as it was.
\<close>

locale digest_store =
  fixes invar :: "'s \<Rightarrow> bool"
    and key_ok :: "string \<Rightarrow> bool"
    and members :: "'s \<Rightarrow> string set"
    and check :: "'s \<Rightarrow> string \<Rightarrow> 's \<times> bool"
    and add :: "'s \<Rightarrow> string \<Rightarrow> 's \<times> bool"
    and remove :: "'s \<Rightarrow> string \<Rightarrow> 's \<times> bool"
  assumes check_sound:
      "invar s \<Longrightarrow> key_ok k \<Longrightarrow> check s k = (s', b) \<Longrightarrow>
       invar s' \<and> members s' = members s \<and> (b \<longrightarrow> k \<in> members s)"
    and add_members:
      "invar s \<Longrightarrow> key_ok k \<Longrightarrow> add s k = (s', b) \<Longrightarrow>
       invar s' \<and> members s' = (if b then insert k (members s) else members s)"
    and remove_members:
      "invar s \<Longrightarrow> key_ok k \<Longrightarrow> remove s k = (s', b) \<Longrightarrow>
       invar s' \<and> members s' = (if b then members s - {k} else members s)"
begin

lemma check_true_after_failed_add:
  assumes "invar s" "key_ok k" "add s k = (s', False)" "check s' k = (s'', True)"
  shows "k \<in> members s"
  using add_members [OF assms(1-3)] check_sound [OF _ assms(2,4)] by simp

lemma not_found_after_remove:
  assumes "invar s" "key_ok k" "remove s k = (s', True)"
  shows "\<not> snd (check s' k)"
proof -
  obtain s'' b where c: "check s' k = (s'', b)" by fastforce
  with remove_members [OF assms] check_sound [OF _ assms(2) c] show ?thesis by auto
qed

lemma found_was_there_or_added:
  assumes "invar s" "key_ok k" "key_ok j" "add s j = (s', b)" "check s' k = (s'', True)"
  shows "k \<in> members s \<or> k = j"
  using add_members [OF assms(1,3,4)] check_sound [OF _ assms(2,5)] by (auto split: if_splits)

text \<open>A run of additions only adds the digests it was given.\<close>

lemma fold_add_members:
  assumes "invar s" and "\<forall>k \<in> set ks. key_ok k"
  shows "invar (fold (\<lambda>k s. fst (add s k)) ks s) \<and>
    members s \<subseteq> members (fold (\<lambda>k s. fst (add s k)) ks s) \<and>
    members (fold (\<lambda>k s. fst (add s k)) ks s) \<subseteq> members s \<union> set ks"
  using assms
proof (induction ks arbitrary: s)
  case Nil
  then show ?case by simp
next
  case (Cons k ks)
  obtain s' b where a: "add s k = (s', b)" by fastforce
  from Cons.prems a have "invar s'" and m: "members s' = (if b then insert k (members s) else members s)"
    using add_members [of s k s' b] by auto
  with Cons.IH [of s'] Cons.prems a show ?case by (auto split: if_splits)
qed

end

section \<open>A store that never misses\<close>

locale complete_store = digest_store +
  assumes check_complete:
      "invar s \<Longrightarrow> key_ok k \<Longrightarrow> k \<in> members s \<Longrightarrow> snd (check s k)"
begin

lemma check_iff: "invar s \<Longrightarrow> key_ok k \<Longrightarrow> snd (check s k) \<longleftrightarrow> k \<in> members s"
  using check_sound [of s k] check_complete [of s k] by (metis prod.collapse)

lemma found_after_add:
  assumes "invar s" "key_ok k" "add s k = (s', True)"
  shows "snd (check s' k)"
  using add_members [OF assms] assms(2) by (simp add: check_iff)

lemma add_keeps_found:
  assumes "invar s" "key_ok k" "key_ok j" "add s j = (s', b)" "snd (check s k)"
  shows "snd (check s' k)"
  using add_members [OF assms(1,3,4)] assms(1,2,5) by (auto simp: check_iff)

lemma remove_keeps_others:
  assumes "invar s" "key_ok k" "key_ok j" "j \<noteq> k" "remove s j = (s', b)"
  shows "snd (check s' k) = snd (check s k)"
  using remove_members [OF assms(1,3,5)] assms(1,2,4) by (auto simp: check_iff)

end

section \<open>Two stores, one in front of the other\<close>

text \<open>
  The handlers' lookup: the fast store answers first; where it does not know the digest the
  slow one is asked, and what it knows is copied into the fast one.
\<close>

locale two_level_store =
  fast: complete_store invar1 key_ok members1 check1 add1 remove1 +
  slow: digest_store invar2 key_ok members2 check2 add2 remove2
  for key_ok :: "string \<Rightarrow> bool"
    and invar1 :: "'s \<Rightarrow> bool" and members1 :: "'s \<Rightarrow> string set"
    and check1 :: "'s \<Rightarrow> string \<Rightarrow> 's \<times> bool" and add1 :: "'s \<Rightarrow> string \<Rightarrow> 's \<times> bool"
    and remove1 :: "'s \<Rightarrow> string \<Rightarrow> 's \<times> bool"
    and invar2 :: "'t \<Rightarrow> bool" and members2 :: "'t \<Rightarrow> string set"
    and check2 :: "'t \<Rightarrow> string \<Rightarrow> 't \<times> bool" and add2 :: "'t \<Rightarrow> string \<Rightarrow> 't \<times> bool"
    and remove2 :: "'t \<Rightarrow> string \<Rightarrow> 't \<times> bool"
begin

text \<open>A digest found in either level is a member of one of them.\<close>

lemma lookup_sound:
  assumes "invar1 s" "invar2 t" "key_ok k"
    and "snd (check1 s k) \<or> snd (check2 t k)"
  shows "k \<in> members1 s \<union> members2 t"
  using assms fast.check_iff [OF assms(1,3)] slow.check_sound [OF assms(2,3)]
  by (metis UnI1 UnI2 prod.collapse)

text \<open>
  Copying a digest the slow store knows keeps the fast store a part of the slow one: the
  cache stays coherent.
\<close>

lemma fill_coherent:
  assumes "invar1 s" "invar2 t" "key_ok k" "members1 s \<subseteq> members2 t"
    and "check2 t k = (t', True)" and "add1 s k = (s', b)"
  shows "invar1 s' \<and> invar2 t' \<and> members2 t' = members2 t \<and> members1 s' \<subseteq> members2 t'"
  using fast.add_members [OF assms(1,3,6)] slow.check_sound [OF assms(2,3,5)] assms(4)
  by (auto split: if_splits)

text \<open>
  Adding to the slow store and then to the fast one is coherent where the first addition
  succeeds; where it fails, the digest the fast store took is the only one it may hold in
  excess.
\<close>

lemma add_both_coherent:
  assumes "invar1 s" "invar2 t" "key_ok k" "members1 s \<subseteq> members2 t"
    and "add2 t k = (t', b2)" and "add1 s k = (s', b1)"
  shows "invar1 s' \<and> invar2 t' \<and> members2 t \<subseteq> members2 t' \<and>
    members1 s' \<subseteq> members2 t' \<union> (if b2 then {} else {k})"
  using fast.add_members [OF assms(1,3,6)] slow.add_members [OF assms(2,3,5)] assms(4)
  by (auto split: if_splits)

end

end
