(* ===== verification/Hash.thy ===== *)
theory Hash
  imports Lexec_Prelude
begin

text \<open>
  \<open>src/src/common/hash.c\<close>: the SHA-256 of an open file as 64 lower-case hexadecimal
  digits. OpenSSL's digest (\<open>SHA256_Init\<close>, \<open>SHA256_Update\<close>, \<open>SHA256_Final\<close>) is
  not part of the repository: it is the parameter \<open>api\<close> of the definitions, and
  \<open>sha256_spec\<close> says what its documentation promises, that the digest of a context is
  a function of the bytes it was fed.
\<close>

section \<open>The digest library\<close>

record 'c sha256_api =
  sha_init :: "'c option"
  sha_update :: "'c \<Rightarrow> u8 list \<Rightarrow> 'c option"
  sha_final :: "'c \<Rightarrow> u8 list option"

definition sha256_spec :: "'c sha256_api \<Rightarrow> ('c \<Rightarrow> u8 list) \<Rightarrow> (u8 list \<Rightarrow> u8 list) \<Rightarrow> bool" where
  "sha256_spec api fed H \<longleftrightarrow>
     (\<forall>c. sha_init api = Some c \<longrightarrow> fed c = []) \<and>
     (\<forall>c bs c'. sha_update api c bs = Some c' \<longrightarrow> fed c' = fed c @ bs) \<and>
     (\<forall>c d. sha_final api c = Some d \<longrightarrow> d = H (fed c)) \<and>
     (\<forall>m. length (H m) = 32)"

definition sha256_total :: "'c sha256_api \<Rightarrow> bool" where
  "sha256_total api \<longleftrightarrow>
     sha_init api \<noteq> None \<and> (\<forall>c bs. sha_update api c bs \<noteq> None) \<and> (\<forall>c. sha_final api c \<noteq> None)"

lemma sha256_spec_init: "sha256_spec api fed H \<Longrightarrow> sha_init api = Some c \<Longrightarrow> fed c = []"
  and sha256_spec_update:
    "sha256_spec api fed H \<Longrightarrow> sha_update api c bs = Some c' \<Longrightarrow> fed c' = fed c @ bs"
  and sha256_spec_final: "sha256_spec api fed H \<Longrightarrow> sha_final api c = Some d \<Longrightarrow> d = H (fed c)"
  and sha256_spec_length: "sha256_spec api fed H \<Longrightarrow> length (H m) = 32"
  unfolding sha256_spec_def by blast+

lemma sha256_total_init: "sha256_total api \<Longrightarrow> \<exists>c. sha_init api = Some c"
  and sha256_total_update: "sha256_total api \<Longrightarrow> \<exists>c'. sha_update api c bs = Some c'"
  and sha256_total_final: "sha256_total api \<Longrightarrow> \<exists>d. sha_final api c = Some d"
  unfolding sha256_total_def by blast+

text \<open>
  A concrete library for the witnesses: the context is the bytes fed so far and the digest
  is the first 32 of them, padded with zeros.
\<close>

definition pad_digest :: "u8 list \<Rightarrow> u8 list" where
  "pad_digest m = take 32 (m @ replicate 32 0)"

definition pad_api :: "u8 list sha256_api" where
  "pad_api = \<lparr>sha_init = Some [], sha_update = (\<lambda>c bs. Some (c @ bs)),
              sha_final = (\<lambda>c. Some (pad_digest c))\<rparr>"

lemma pad_api_spec: "sha256_spec pad_api (\<lambda>c. c) pad_digest"
  by (auto simp: sha256_spec_def pad_api_def pad_digest_def min_def)

lemma pad_api_total: "sha256_total pad_api"
  by (simp add: sha256_total_def pad_api_def)

section \<open>Hexadecimal output\<close>

definition hex_chars :: string where
  "hex_chars = ''0123456789abcdef''"

primrec bytes_to_hex :: "u8 list \<Rightarrow> string" where
  "bytes_to_hex [] = []"
| "bytes_to_hex (b # bs) =
     (hex_chars ! unat (drop_bit 4 b AND 0x0f)) # (hex_chars ! unat (b AND 0x0f)) # bytes_to_hex bs"

lemma length_bytes_to_hex [simp]: "length (bytes_to_hex bs) = 2 * length bs"
  by (induction bs) auto

lemma unat_byte: "unat (b :: u8) < 256"
proof -
  have "unat b < 2 ^ LENGTH(8)" by (rule unsigned_less)
  then show ?thesis by simp
qed

lemma unat_nibble: "unat ((b :: u8) AND 0x0f) = unat b mod 16"
proof -
  have "(b :: u8) AND 0x0f = take_bit 4 b"
    by (simp add: take_bit_eq_mask mask_eq_exp_minus_1)
  also have "\<dots> = b mod 16" by (simp add: take_bit_eq_mod)
  finally show ?thesis by (simp add: unat_mod)
qed

lemma unat_high_nibble: "unat (drop_bit 4 (b :: u8) AND 0x0f) = unat b div 16"
proof -
  have "unat (drop_bit 4 b) = unat b div 16"
    by (simp add: unat_drop_bit_eq drop_bit_eq_div unat_div)
  moreover have "unat b div 16 < 16" using unat_byte [of b] by simp
  ultimately show ?thesis by (simp only: unat_nibble) simp
qed

lemma bytes_to_hex_digits: "set (bytes_to_hex bs) \<subseteq> set hex_chars"
proof (induction bs)
  case Nil
  then show ?case by simp
next
  case (Cons b bs)
  have "unat b < 256" by (rule unat_byte)
  then have "unat b div 16 < length hex_chars" "unat b mod 16 < length hex_chars"
    by (auto simp: hex_chars_def)
  then have "hex_chars ! unat (drop_bit 4 b AND 0x0f) \<in> set hex_chars"
    and "hex_chars ! unat (b AND 0x0f) \<in> set hex_chars"
    by (metis unat_high_nibble nth_mem, metis unat_nibble nth_mem)
  then show ?case using Cons by (simp only: bytes_to_hex.simps) simp
qed

section \<open>Hashing an open file\<close>

datatype 'c loop_end = Read_failed | Update_failed | End_of_file 'c

text \<open>The loop \<open>while ((bytes_read = read (fd, buffer, BUFFER_SIZE)) > 0)\<close>.\<close>

function hash_loop :: "'c sha256_api \<Rightarrow> fdesc \<Rightarrow> 'c \<Rightarrow> fdesc \<times> 'c loop_end" where
  "hash_loop api f c =
     (case read_fd f 65536 of
        (f', None) \<Rightarrow> (f', Read_failed)
      | (f', Some bs) \<Rightarrow>
          if bs = [] then (f', End_of_file c)
          else (case sha_update api c bs of
                  None \<Rightarrow> (f', Update_failed)
                | Some c' \<Rightarrow> hash_loop api f' c'))"
  by pat_completeness auto
termination
  by (relation "measure (\<lambda>(api, f, c). length (fd_content f) - fd_pos f)")
    (auto dest!: read_fd_progress [OF sym])

declare hash_loop.simps [simp del]

definition hash_fd :: "'c sha256_api \<Rightarrow> fdesc \<Rightarrow> fdesc \<times> string option" where
  "hash_fd api f =
     (let original_pos = (case lseek_cur f of None \<Rightarrow> 0 | Some p \<Rightarrow> p) in
      case lseek_set f 0 of
        (f1, False) \<Rightarrow> (f1, None)
      | (f1, True) \<Rightarrow>
          (case sha_init api of
             None \<Rightarrow> (f1, None)
           | Some c \<Rightarrow>
               (case hash_loop api f1 c of
                  (f2, Update_failed) \<Rightarrow> (fst (lseek_set f2 original_pos), None)
                | (f2, Read_failed) \<Rightarrow> (fst (lseek_set f2 original_pos), None)
                | (f2, End_of_file c') \<Rightarrow>
                    (case sha_final api c' of
                       None \<Rightarrow> (fst (lseek_set f2 original_pos), None)
                     | Some hash \<Rightarrow>
                         (fst (lseek_set f2 original_pos), Some (bytes_to_hex hash))))))"

text \<open>\<open>hash_file\<close>: \<open>open_file\<close> is \<open>open (path, O_RDONLY)\<close>.\<close>

definition hash_file :: "'c sha256_api \<Rightarrow> (string \<Rightarrow> fdesc option) \<Rightarrow> string \<Rightarrow> string option" where
  "hash_file api open_file path =
     (case open_file path of
        None \<Rightarrow> None
      | Some f \<Rightarrow> snd (hash_fd api f))"

section \<open>What the loop computes\<close>

lemma hash_loop_frame:
  "hash_loop api f c = (f', e) \<Longrightarrow> fd_content f' = fd_content f \<and> fd_seekable f' = fd_seekable f"
proof (induction api f c rule: hash_loop.induct)
  case (1 api f c)
  then show ?case
    by (auto simp: hash_loop.simps [of api f c] dest: read_fd_frame
        split: prod.splits option.splits if_splits)
qed

lemma hash_loop_fed:
  "sha256_spec api fed H \<Longrightarrow> hash_loop api f c = (f', End_of_file c') \<Longrightarrow>
   fed c' = fed c @ drop (fd_pos f) (fd_content f)"
proof (induction api f c rule: hash_loop.induct)
  case (1 api f c)
  note spec = "1.prems"(1)
  from "1.prems"(2) obtain g bs where rd: "read_fd f 65536 = (g, Some bs)"
    by (auto simp: hash_loop.simps [of api f c] split: prod.splits option.splits)
  note pos = read_fd_Some [OF rd] and frame = read_fd_frame [OF rd]
  show ?case
  proof (cases "bs = []")
    case True
    with "1.prems" rd read_fd_empty [of f 65536 g] show ?thesis
      by (auto simp: hash_loop.simps [of api f c])
  next
    case False
    with "1.prems" rd obtain d where upd: "sha_update api c bs = Some d"
      and rest: "hash_loop api g d = (f', End_of_file c')"
      by (auto simp: hash_loop.simps [of api f c] split: option.splits)
    have "fed c' = fed d @ drop (fd_pos g) (fd_content g)"
      using "1.IH" [OF rd [symmetric] refl False upd spec rest] .
    also have "fed d = fed c @ bs" by (rule sha256_spec_update [OF spec upd])
    finally show ?thesis using pos frame
      by (metis append.assoc append_take_drop_id drop_drop add.commute)
  qed
qed

lemma hash_loop_total:
  "sha256_total api \<Longrightarrow> Rd_error \<notin> set (fd_reads f) \<Longrightarrow>
   \<exists>f' c'. hash_loop api f c = (f', End_of_file c')"
proof (induction api f c rule: hash_loop.induct)
  case (1 api f c)
  obtain g r where rd: "read_fd f 65536 = (g, r)" by fastforce
  with read_fd_no_error [OF "1.prems"(2) rd] obtain bs where r: "r = Some bs"
    and sub: "set (fd_reads g) \<subseteq> set (fd_reads f)" by auto
  show ?case
  proof (cases "bs = []")
    case True
    with rd r show ?thesis by (simp add: hash_loop.simps [of api f c])
  next
    case False
    obtain d where upd: "sha_update api c bs = Some d"
      using sha256_total_update [OF "1.prems"(1)] by blast
    have "Rd_error \<notin> set (fd_reads g)" using sub "1.prems"(2) by blast
    then have "\<exists>f' c'. hash_loop api g d = (f', End_of_file c')"
      by (rule "1.IH" [OF rd [symmetric] r False upd "1.prems"(1)])
    with rd r False upd show ?thesis by (simp add: hash_loop.simps [of api f c])
  qed
qed

section \<open>The digest of a file\<close>

text \<open>
  The file description after \<open>hash_fd\<close>: its position is what it was, whether hashing
  succeeded or not.
\<close>

lemma hash_fd_position:
  assumes "hash_fd api f = (f', r)" and "sha_init api \<noteq> None"
  shows "fd_pos f' = fd_pos f \<and> fd_content f' = fd_content f"
proof (cases "fd_seekable f")
  case False
  with assms show ?thesis by (auto simp: hash_fd_def lseek_set_def lseek_cur_def)
next
  case True
  with assms show ?thesis
    by (auto simp: hash_fd_def lseek_set_def lseek_cur_def Let_def
        split: option.splits prod.splits loop_end.splits dest!: hash_loop_frame)
qed

lemma hash_fd_content:
  assumes "sha256_spec api fed H" and "hash_fd api f = (f', Some hex)"
  shows "hex = bytes_to_hex (H (fd_content f)) \<and> length hex = 64"
proof -
  from assms(2) obtain g c0 c1 d where
    init: "sha_init api = Some c0" and
    loop: "hash_loop api (f\<lparr>fd_pos := 0\<rparr>) c0 = (g, End_of_file c1)" and
    fin: "sha_final api c1 = Some d" and hex: "hex = bytes_to_hex d"
    by (auto simp: hash_fd_def lseek_set_def Let_def
        split: option.splits prod.splits loop_end.splits if_splits)
  have "fed c1 = fed c0 @ fd_content f" using hash_loop_fed [OF assms(1) loop] by simp
  moreover have "fed c0 = []" by (rule sha256_spec_init [OF assms(1) init])
  moreover have "d = H (fed c1)" "length (H (fed c1)) = 32"
    using sha256_spec_final [OF assms(1) fin] sha256_spec_length [OF assms(1)] by simp_all
  ultimately show ?thesis using hex by simp
qed

lemma hash_fd_total:
  assumes "sha256_total api" and "fd_seekable f" and "Rd_error \<notin> set (fd_reads f)"
  shows "\<exists>f' hex. hash_fd api f = (f', Some hex)"
proof -
  obtain c0 where init: "sha_init api = Some c0"
    using sha256_total_init [OF assms(1)] by blast
  obtain g c1 where loop: "hash_loop api (f\<lparr>fd_pos := 0\<rparr>) c0 = (g, End_of_file c1)"
    using hash_loop_total [OF assms(1), of "f\<lparr>fd_pos := 0\<rparr>" c0] assms(3) by auto
  obtain d where "sha_final api c1 = Some d" using sha256_total_final [OF assms(1)] by blast
  with init loop assms(2) show ?thesis
    by (simp add: hash_fd_def lseek_set_def)
qed

lemma hash_fd_hex_digits:
  assumes "hash_fd api f = (f', Some hex)"
  shows "set hex \<subseteq> set hex_chars"
proof -
  from assms obtain d where "hex = bytes_to_hex d"
    by (auto simp: hash_fd_def Let_def
        split: option.splits prod.splits loop_end.splits if_splits bool.splits)
  then show ?thesis by (simp add: bytes_to_hex_digits)
qed

lemma pad_hash_fd:
  assumes "fd_seekable f" and "Rd_error \<notin> set (fd_reads f)"
  shows "snd (hash_fd pad_api f) = Some (bytes_to_hex (pad_digest (fd_content f)))"
  using hash_fd_total [OF pad_api_total assms] hash_fd_content [OF pad_api_spec] by fastforce

end
