(* ===== verification/Whitelist.thy ===== *)
theory Whitelist
  imports Digest_Store Hash "HOL-Library.AList"
begin

text \<open>
  \<open>src/src/daemon/whitelist.c\<close> without its scan: the persistent whitelist.
  SQLite is not part of the repository: the connection's state has the type \<open>'db\<close>, its
  calls are the parameter \<open>api\<close>, and the statements are passed to it as the very text of
  the source. \<open>sqlite_spec\<close> says what those statements do to the table, in the terms of
  the SQL documentation; \<open>sqlite_never_fails\<close> says that no step returns an error code.
  What it asks of the operating system is the parameter \<open>os\<close>.
\<close>

section \<open>SQLite and the operating system\<close>

datatype sql_value = Sql_text string | Sql_int int

datatype step_result = Sql_row "sql_value list" | Sql_done | Sql_error

record 'db sqlite =
  sql_open :: "string \<Rightarrow> 'db option \<times> bool"
  sql_exec :: "'db \<Rightarrow> string \<Rightarrow> 'db \<times> bool"
  sql_prepare :: "'db \<Rightarrow> string \<Rightarrow> bool"
  sql_step :: "'db \<Rightarrow> string \<Rightarrow> sql_value list \<Rightarrow> 'db \<times> step_result"

record os =
  os_clock :: "nat \<Rightarrow> int"
  os_opendir :: "string \<Rightarrow> string list option"
  os_lstat :: "string \<Rightarrow> u32 option"
  os_open :: "string \<Rightarrow> fdesc option"

text \<open>The statements of the source.\<close>

definition create_table_sql :: string where
  "create_table_sql =
     ''CREATE TABLE IF NOT EXISTS whitelist (  hash TEXT PRIMARY KEY,  path TEXT NOT NULL,  added_time INTEGER NOT NULL,  added_by INTEGER DEFAULT 0,  is_system INTEGER DEFAULT 0);CREATE INDEX IF NOT EXISTS idx_path ON whitelist(path);''"

definition check_sql :: string where
  "check_sql = ''SELECT 1 FROM whitelist WHERE hash = ?''"

definition add_sql :: string where
  "add_sql = ''INSERT OR REPLACE INTO whitelist (hash, path, added_time, is_system) VALUES (?, ?, ?, ?)''"

definition remove_sql :: string where
  "remove_sql = ''DELETE FROM whitelist WHERE hash = ?''"

definition count_sql :: string where
  "count_sql = ''SELECT COUNT(*) FROM whitelist''"

lemma sql_texts_distinct [simp]:
  "check_sql \<noteq> add_sql" "check_sql \<noteq> remove_sql" "check_sql \<noteq> count_sql"
  "add_sql \<noteq> remove_sql" "add_sql \<noteq> count_sql" "remove_sql \<noteq> count_sql"
  "add_sql \<noteq> check_sql" "remove_sql \<noteq> check_sql" "count_sql \<noteq> check_sql"
  "remove_sql \<noteq> add_sql" "count_sql \<noteq> add_sql" "count_sql \<noteq> remove_sql"
  by (simp_all add: check_sql_def add_sql_def remove_sql_def count_sql_def)

text \<open>One row of the table, keyed by its hash.\<close>

record whitelist_row =
  row_path :: string
  row_added_time :: int
  row_added_by :: int
  row_is_system :: int

text \<open>
  The documented meaning of the four statements over \<open>tbl\<close>, the table of a connection:
  a step that reports an error changes nothing.
\<close>

definition spec_check :: "'db sqlite \<Rightarrow> ('db \<Rightarrow> string \<rightharpoonup> whitelist_row) \<Rightarrow> bool" where
  "spec_check api tbl \<longleftrightarrow>
     (\<forall>db h db' r. sql_step api db check_sql [Sql_text h] = (db', r) \<longrightarrow>
        tbl db' = tbl db \<and>
        (case r of Sql_row vs \<Rightarrow> h \<in> dom (tbl db) | Sql_done \<Rightarrow> h \<notin> dom (tbl db) | Sql_error \<Rightarrow> True))"

definition spec_add :: "'db sqlite \<Rightarrow> ('db \<Rightarrow> string \<rightharpoonup> whitelist_row) \<Rightarrow> bool" where
  "spec_add api tbl \<longleftrightarrow>
     (\<forall>db h p t y db' r.
        sql_step api db add_sql [Sql_text h, Sql_text p, Sql_int t, Sql_int y] = (db', r) \<longrightarrow>
        tbl db' = (if r = Sql_done
                   then (tbl db)(h \<mapsto> \<lparr>row_path = p, row_added_time = t, row_added_by = 0,
                                      row_is_system = y\<rparr>)
                   else tbl db))"

definition spec_remove :: "'db sqlite \<Rightarrow> ('db \<Rightarrow> string \<rightharpoonup> whitelist_row) \<Rightarrow> bool" where
  "spec_remove api tbl \<longleftrightarrow>
     (\<forall>db h db' r. sql_step api db remove_sql [Sql_text h] = (db', r) \<longrightarrow>
        tbl db' = (if r = Sql_done then (tbl db)(h := None) else tbl db))"

definition spec_count :: "'db sqlite \<Rightarrow> ('db \<Rightarrow> string \<rightharpoonup> whitelist_row) \<Rightarrow> bool" where
  "spec_count api tbl \<longleftrightarrow>
     (\<forall>db db' r. sql_step api db count_sql [] = (db', r) \<longrightarrow>
        tbl db' = tbl db \<and>
        (\<forall>vs. r = Sql_row vs \<longrightarrow> vs = [Sql_int (int (card (dom (tbl db))))]))"

definition sqlite_spec :: "'db sqlite \<Rightarrow> ('db \<Rightarrow> string \<rightharpoonup> whitelist_row) \<Rightarrow> bool" where
  "sqlite_spec api tbl \<longleftrightarrow>
     spec_check api tbl \<and> spec_add api tbl \<and> spec_remove api tbl \<and> spec_count api tbl"

definition sqlite_never_fails :: "'db sqlite \<Rightarrow> bool" where
  "sqlite_never_fails api \<longleftrightarrow>
     (\<forall>db h. snd (sql_step api db check_sql [Sql_text h]) \<noteq> Sql_error) \<and>
     (\<forall>db h p t y. snd (sql_step api db add_sql [Sql_text h, Sql_text p, Sql_int t, Sql_int y])
        = Sql_done) \<and>
     (\<forall>db h. snd (sql_step api db remove_sql [Sql_text h]) = Sql_done) \<and>
     (\<forall>db. \<exists>vs. snd (sql_step api db count_sql []) = Sql_row vs)"

section \<open>State and operations\<close>

text \<open>
  \<open>g_db\<close>, the three prepared statements (present or NULL), \<open>g_learning_mode\<close>, and how
  often the clock was read.
\<close>

record 'db whitelist =
  g_db :: "'db option"
  g_stmt_check :: bool
  g_stmt_add :: bool
  g_stmt_remove :: bool
  g_learning_mode :: int
  clock_reads :: nat

definition whitelist_initial :: "'db whitelist" where
  "whitelist_initial = \<lparr>g_db = None, g_stmt_check = False, g_stmt_add = False,
     g_stmt_remove = False, g_learning_mode = 0, clock_reads = 0\<rparr>"

definition whitelist_count :: "'db sqlite \<Rightarrow> 'db whitelist \<Rightarrow> 'db whitelist \<times> u64" where
  "whitelist_count api w =
     (case g_db w of
        None \<Rightarrow> (w, 0)
      | Some db \<Rightarrow>
          if sql_prepare api db count_sql
          then (case sql_step api db count_sql [] of
                  (db', Sql_row (Sql_int n # vs)) \<Rightarrow> (w\<lparr>g_db := Some db'\<rparr>, word_of_int n)
                | (db', _) \<Rightarrow> (w\<lparr>g_db := Some db'\<rparr>, 0))
          else (w, 0))"

definition whitelist_init :: "'db sqlite \<Rightarrow> string \<Rightarrow> 'db whitelist \<Rightarrow> 'db whitelist \<times> int" where
  "whitelist_init api db_path w =
     (let (h, ok) = sql_open api db_path; w1 = w\<lparr>g_db := h\<rparr> in
      if \<not> ok then (w1, - 1)
      else case h of None \<Rightarrow> (w1, - 1) | Some db \<Rightarrow>
      (let (db2, created) = sql_exec api db create_table_sql; w2 = w1\<lparr>g_db := Some db2\<rparr> in
       if \<not> created then (w2, - 1)
       else let w3 = w2\<lparr>g_stmt_check := sql_prepare api db2 check_sql\<rparr> in
       if \<not> g_stmt_check w3 then (w3, - 1)
       else let w4 = w3\<lparr>g_stmt_add := sql_prepare api db2 add_sql\<rparr> in
       if \<not> g_stmt_add w4 then (w4, - 1)
       else let w5 = w4\<lparr>g_stmt_remove := sql_prepare api db2 remove_sql\<rparr> in
       if \<not> g_stmt_remove w5 then (w5, - 1)
       else (fst (whitelist_count api w5), 0)))"

definition whitelist_close :: "'db whitelist \<Rightarrow> 'db whitelist" where
  "whitelist_close w =
     w\<lparr>g_stmt_check := False, g_stmt_add := False, g_stmt_remove := False, g_db := None\<rparr>"

definition whitelist_check :: "'db sqlite \<Rightarrow> 'db whitelist \<Rightarrow> string \<Rightarrow> 'db whitelist \<times> int" where
  "whitelist_check api w hash =
     (case g_db w of
        None \<Rightarrow> (w, 0)
      | Some db \<Rightarrow>
          if \<not> g_stmt_check w then (w, 0)
          else (case sql_step api db check_sql [Sql_text hash] of
                  (db', Sql_row vs) \<Rightarrow> (w\<lparr>g_db := Some db'\<rparr>, 1)
                | (db', _) \<Rightarrow> (w\<lparr>g_db := Some db'\<rparr>, 0)))"

definition whitelist_add ::
  "'db sqlite \<Rightarrow> os \<Rightarrow> 'db whitelist \<Rightarrow> string \<Rightarrow> string \<Rightarrow> int \<Rightarrow> 'db whitelist \<times> int" where
  "whitelist_add api os w0 hash path is_system =
     (let now = os_clock os (clock_reads w0);
          w = w0\<lparr>clock_reads := Suc (clock_reads w0)\<rparr> in
      case g_db w of
        None \<Rightarrow> (w, - 1)
      | Some db \<Rightarrow>
          if \<not> g_stmt_add w then (w, - 1)
          else (case sql_step api db add_sql
                       [Sql_text hash, Sql_text path, Sql_int now, Sql_int is_system] of
                  (db', Sql_done) \<Rightarrow> (w\<lparr>g_db := Some db'\<rparr>, 0)
                | (db', _) \<Rightarrow> (w\<lparr>g_db := Some db'\<rparr>, - 1)))"

definition whitelist_remove :: "'db sqlite \<Rightarrow> 'db whitelist \<Rightarrow> string \<Rightarrow> 'db whitelist \<times> int" where
  "whitelist_remove api w hash =
     (case g_db w of
        None \<Rightarrow> (w, - 1)
      | Some db \<Rightarrow>
          if \<not> g_stmt_remove w then (w, - 1)
          else (case sql_step api db remove_sql [Sql_text hash] of
                  (db', Sql_done) \<Rightarrow> (w\<lparr>g_db := Some db'\<rparr>, 0)
                | (db', _) \<Rightarrow> (w\<lparr>g_db := Some db'\<rparr>, - 1)))"

definition whitelist_set_learning_mode :: "'db whitelist \<Rightarrow> int \<Rightarrow> 'db whitelist" where
  "whitelist_set_learning_mode w enabled = w\<lparr>g_learning_mode := enabled\<rparr>"

definition whitelist_get_learning_mode :: "'db whitelist \<Rightarrow> int" where
  "whitelist_get_learning_mode w = g_learning_mode w"

section \<open>A reference engine\<close>

text \<open>
  An SQLite that keeps the table as an association list and never fails, for the witnesses:
  it shows that the hypotheses about the library can hold together.
\<close>

type_synonym ref_db = "(string \<times> whitelist_row) list"

definition ref_step :: "ref_db \<Rightarrow> string \<Rightarrow> sql_value list \<Rightarrow> ref_db \<times> step_result" where
  "ref_step db sql vs =
     (if sql = check_sql then
        (case vs of
           [Sql_text h] \<Rightarrow> (db, if h \<in> set (map fst db) then Sql_row [Sql_int 1] else Sql_done)
         | _ \<Rightarrow> (db, Sql_error))
      else if sql = add_sql then
        (case vs of
           [Sql_text h, Sql_text p, Sql_int t, Sql_int y] \<Rightarrow>
             (AList.update h \<lparr>row_path = p, row_added_time = t, row_added_by = 0,
                row_is_system = y\<rparr> db, Sql_done)
         | _ \<Rightarrow> (db, Sql_error))
      else if sql = remove_sql then
        (case vs of
           [Sql_text h] \<Rightarrow> (AList.delete h db, Sql_done)
         | _ \<Rightarrow> (db, Sql_error))
      else if sql = count_sql then (db, Sql_row [Sql_int (int (length (remdups (map fst db))))])
      else (db, Sql_error))"

definition ref_sqlite :: "ref_db sqlite" where
  "ref_sqlite = \<lparr>sql_open = (\<lambda>path. (Some [], True)), sql_exec = (\<lambda>db sql. (db, True)),
     sql_prepare = (\<lambda>db sql. True), sql_step = ref_step\<rparr>"

lemma ref_sqlite_spec: "sqlite_spec ref_sqlite map_of"
proof -
  have "spec_check ref_sqlite map_of"
    by (auto simp: spec_check_def ref_sqlite_def ref_step_def dom_map_of_conv_image_fst)
  moreover have "spec_add ref_sqlite map_of"
    by (auto simp: spec_add_def ref_sqlite_def ref_step_def update_conv')
  moreover have "spec_remove ref_sqlite map_of"
    by (auto simp: spec_remove_def ref_sqlite_def ref_step_def delete_conv')
  moreover have "spec_count ref_sqlite map_of"
    by (auto simp: spec_count_def ref_sqlite_def ref_step_def dom_map_of_conv_image_fst
        length_remdups_card_conv)
  ultimately show ?thesis by (simp add: sqlite_spec_def)
qed

lemma ref_sqlite_never_fails: "sqlite_never_fails ref_sqlite"
  by (simp add: sqlite_never_fails_def ref_sqlite_def ref_step_def)

section \<open>The table under the operations\<close>

definition wl_table :: "('db \<Rightarrow> string \<rightharpoonup> whitelist_row) \<Rightarrow> 'db whitelist \<Rightarrow> string \<rightharpoonup> whitelist_row" where
  "wl_table tbl w = (case g_db w of None \<Rightarrow> Map.empty | Some db \<Rightarrow> tbl db)"

definition whitelist_ready :: "'db whitelist \<Rightarrow> bool" where
  "whitelist_ready w \<longleftrightarrow> g_db w \<noteq> None \<and> g_stmt_check w \<and> g_stmt_add w \<and> g_stmt_remove w"

text \<open>What no statement ever changes: which handles are open.\<close>

definition same_handles :: "'db whitelist \<Rightarrow> 'db whitelist \<Rightarrow> bool" where
  "same_handles w w' \<longleftrightarrow>
     (g_db w' = None \<longleftrightarrow> g_db w = None) \<and> g_stmt_check w' = g_stmt_check w \<and>
     g_stmt_add w' = g_stmt_add w \<and> g_stmt_remove w' = g_stmt_remove w \<and>
     g_learning_mode w' = g_learning_mode w"

lemma same_handles_refl [simp]: "same_handles w w"
  by (simp add: same_handles_def)

lemma same_handles_trans: "same_handles u v \<Longrightarrow> same_handles v w \<Longrightarrow> same_handles u w"
  by (simp add: same_handles_def)

lemma same_handles_ready: "same_handles w w' \<Longrightarrow> whitelist_ready w' = whitelist_ready w"
  by (auto simp: same_handles_def whitelist_ready_def)

lemma sqlite_spec_checkD:
  "sqlite_spec api tbl \<Longrightarrow> sql_step api db check_sql [Sql_text h] = (db', r) \<Longrightarrow>
   tbl db' = tbl db \<and> (\<forall>vs. r = Sql_row vs \<longrightarrow> h \<in> dom (tbl db)) \<and> (r = Sql_done \<longrightarrow> h \<notin> dom (tbl db))"
  by (cases r) (fastforce simp: sqlite_spec_def spec_check_def)+

lemma sqlite_spec_addD:
  "sqlite_spec api tbl \<Longrightarrow>
   sql_step api db add_sql [Sql_text h, Sql_text p, Sql_int t, Sql_int y] = (db', r) \<Longrightarrow>
   tbl db' = (if r = Sql_done
     then (tbl db)(h \<mapsto> \<lparr>row_path = p, row_added_time = t, row_added_by = 0, row_is_system = y\<rparr>)
     else tbl db)"
  unfolding sqlite_spec_def spec_add_def by blast

lemma sqlite_spec_removeD:
  "sqlite_spec api tbl \<Longrightarrow> sql_step api db remove_sql [Sql_text h] = (db', r) \<Longrightarrow>
   tbl db' = (if r = Sql_done then (tbl db)(h := None) else tbl db)"
  unfolding sqlite_spec_def spec_remove_def by blast

lemma sqlite_spec_countD:
  "sqlite_spec api tbl \<Longrightarrow> sql_step api db count_sql [] = (db', r) \<Longrightarrow>
   tbl db' = tbl db \<and> (\<forall>vs. r = Sql_row vs \<longrightarrow> vs = [Sql_int (int (card (dom (tbl db))))])"
  unfolding sqlite_spec_def spec_count_def by blast

lemmas sqlite_specD = sqlite_spec_checkD sqlite_spec_addD sqlite_spec_removeD sqlite_spec_countD

lemma whitelist_check_frame: "same_handles w (fst (whitelist_check api w h))"
  by (auto simp: whitelist_check_def same_handles_def split: option.splits step_result.splits prod.splits)

lemma whitelist_add_frame: "same_handles w (fst (whitelist_add api os w h p y))"
  by (auto simp: whitelist_add_def same_handles_def Let_def
      split: option.splits step_result.splits prod.splits)

lemma whitelist_remove_frame: "same_handles w (fst (whitelist_remove api w h))"
  by (auto simp: whitelist_remove_def same_handles_def split: option.splits step_result.splits prod.splits)

lemma whitelist_count_frame: "same_handles w (fst (whitelist_count api w))"
  by (auto simp: whitelist_count_def same_handles_def
      split: option.splits step_result.splits prod.splits list.splits sql_value.splits)

lemma whitelist_check_sound:
  assumes "sqlite_spec api tbl" and "whitelist_check api w h = (w', r)"
  shows "wl_table tbl w' = wl_table tbl w \<and> (r = 0 \<or> r = 1) \<and> (r = 1 \<longrightarrow> h \<in> dom (wl_table tbl w))"
  using assms(2) sqlite_spec_checkD [OF assms(1)]
  by (auto simp: whitelist_check_def wl_table_def
      split: option.splits step_result.splits prod.splits if_splits)

lemma whitelist_check_exact:
  assumes "sqlite_spec api tbl" "sqlite_never_fails api" "whitelist_ready w"
    and "whitelist_check api w h = (w', r)"
  shows "r = (if h \<in> dom (wl_table tbl w) then 1 else 0)"
proof -
  obtain db where db: "g_db w = Some db" using assms(3) by (auto simp: whitelist_ready_def)
  obtain db' q where st: "sql_step api db check_sql [Sql_text h] = (db', q)" by fastforce
  then have "q \<noteq> Sql_error" using assms(2) by (metis sqlite_never_fails_def snd_conv)
  with assms(3,4) db st sqlite_spec_checkD [OF assms(1) st] show ?thesis
    by (cases q) (auto simp: whitelist_check_def wl_table_def whitelist_ready_def)
qed

lemma whitelist_add_table:
  assumes "sqlite_spec api tbl" and "whitelist_add api os w h p y = (w', r)"
  shows "(r = 0 \<or> r = - 1) \<and>
    wl_table tbl w' = (if r = 0
      then (wl_table tbl w)(h \<mapsto> \<lparr>row_path = p, row_added_time = os_clock os (clock_reads w),
             row_added_by = 0, row_is_system = y\<rparr>)
      else wl_table tbl w)"
  using assms(2) sqlite_spec_addD [OF assms(1)]
  by (auto simp: whitelist_add_def wl_table_def Let_def
      split: option.splits step_result.splits prod.splits if_splits)

lemma whitelist_add_succeeds:
  assumes "sqlite_never_fails api" and "whitelist_ready w"
  shows "snd (whitelist_add api os w h p y) = 0"
proof -
  obtain db where db: "g_db w = Some db" using assms(2) by (auto simp: whitelist_ready_def)
  have "snd (sql_step api db add_sql
    [Sql_text h, Sql_text p, Sql_int (os_clock os (clock_reads w)), Sql_int y]) = Sql_done"
    using assms(1) by (simp add: sqlite_never_fails_def)
  with db assms(2) show ?thesis
    by (auto simp: whitelist_add_def whitelist_ready_def Let_def split: prod.splits)
qed

lemma whitelist_remove_table:
  assumes "sqlite_spec api tbl" and "whitelist_remove api w h = (w', r)"
  shows "(r = 0 \<or> r = - 1) \<and>
    wl_table tbl w' = (if r = 0 then (wl_table tbl w)(h := None) else wl_table tbl w)"
  using assms(2) sqlite_spec_removeD [OF assms(1)]
  by (auto simp: whitelist_remove_def wl_table_def
      split: option.splits step_result.splits prod.splits if_splits)

section \<open>The whitelist as a store of digests\<close>

text \<open>
  The store's state carries the library and the meaning of its tables, so that the laws hold
  for every SQLite that keeps its documented promises.
\<close>

type_synonym 'db wl_store = "'db sqlite \<times> ('db \<Rightarrow> string \<rightharpoonup> whitelist_row) \<times> 'db whitelist"

definition wl_invar :: "'db wl_store \<Rightarrow> bool" where
  "wl_invar s = (case s of (api, tbl, w) \<Rightarrow> sqlite_spec api tbl)"

definition wl_reliable :: "'db wl_store \<Rightarrow> bool" where
  "wl_reliable s = (case s of (api, tbl, w) \<Rightarrow>
     sqlite_spec api tbl \<and> sqlite_never_fails api \<and> whitelist_ready w)"

definition wl_members :: "'db wl_store \<Rightarrow> string set" where
  "wl_members s = (case s of (api, tbl, w) \<Rightarrow> dom (wl_table tbl w))"

definition wl_check :: "'db wl_store \<Rightarrow> string \<Rightarrow> 'db wl_store \<times> bool" where
  "wl_check s h = (case s of (api, tbl, w) \<Rightarrow>
     (case whitelist_check api w h of (w', r) \<Rightarrow> ((api, tbl, w'), r \<noteq> 0)))"

definition wl_add :: "os \<Rightarrow> string \<Rightarrow> int \<Rightarrow> 'db wl_store \<Rightarrow> string \<Rightarrow> 'db wl_store \<times> bool" where
  "wl_add os p y s h = (case s of (api, tbl, w) \<Rightarrow>
     (case whitelist_add api os w h p y of (w', r) \<Rightarrow> ((api, tbl, w'), r = 0)))"

definition wl_remove :: "'db wl_store \<Rightarrow> string \<Rightarrow> 'db wl_store \<times> bool" where
  "wl_remove s h = (case s of (api, tbl, w) \<Rightarrow>
     (case whitelist_remove api w h of (w', r) \<Rightarrow> ((api, tbl, w'), r = 0)))"

lemmas wl_store_defs = wl_invar_def wl_reliable_def wl_members_def wl_check_def wl_add_def wl_remove_def

lemma wl_check_law:
  assumes "wl_invar s" "wl_check s k = (s', b)"
  shows "wl_invar s' \<and> wl_members s' = wl_members s \<and> (b \<longrightarrow> k \<in> wl_members s)"
proof -
  obtain api tbl w where s: "s = (api, tbl, w)" by (cases s)
  obtain w' r where c: "whitelist_check api w k = (w', r)" by fastforce
  show ?thesis using assms s c whitelist_check_sound [OF _ c, of tbl] by (auto simp: wl_store_defs)
qed

lemma wl_add_law:
  assumes "wl_invar s" "wl_add os p y s k = (s', b)"
  shows "wl_invar s' \<and> wl_members s' = (if b then insert k (wl_members s) else wl_members s)"
proof -
  obtain api tbl w where s: "s = (api, tbl, w)" by (cases s)
  obtain w' r where c: "whitelist_add api os w k p y = (w', r)" by fastforce
  show ?thesis using assms s c whitelist_add_table [OF _ c, of tbl] by (auto simp: wl_store_defs)
qed

lemma wl_remove_law:
  assumes "wl_invar s" "wl_remove s k = (s', b)"
  shows "wl_invar s' \<and> wl_members s' = (if b then wl_members s - {k} else wl_members s)"
proof -
  obtain api tbl w where s: "s = (api, tbl, w)" by (cases s)
  obtain w' r where c: "whitelist_remove api w k = (w', r)" by fastforce
  show ?thesis using assms s c whitelist_remove_table [OF _ c, of tbl]
    by (auto simp: wl_store_defs split: if_splits)
qed

interpretation wl: digest_store wl_invar "\<lambda>_. True" wl_members wl_check "wl_add os p y" wl_remove
  for os p y
  by unfold_locales (erule (1) wl_check_law wl_add_law wl_remove_law)+

text \<open>Where SQLite never fails and the database is open, the whitelist never misses.\<close>

lemma wl_reliable_invar: "wl_reliable s \<Longrightarrow> wl_invar s"
  by (auto simp: wl_store_defs)

lemma wl_reliable_kept:
  assumes "wl_reliable s"
  shows "wl_reliable (fst (wl_check s k))" "wl_reliable (fst (wl_add os p y s k))"
    "wl_reliable (fst (wl_remove s k))"
proof -
  obtain api tbl w where s: "s = (api, tbl, w)" by (cases s)
  then have r: "sqlite_spec api tbl" "sqlite_never_fails api" "whitelist_ready w"
    using assms by (auto simp: wl_reliable_def)
  show "wl_reliable (fst (wl_check s k))"
    using r same_handles_ready [OF whitelist_check_frame, of api w k]
    by (simp add: s wl_check_def wl_reliable_def case_prod_beta)
  show "wl_reliable (fst (wl_add os p y s k))"
    using r same_handles_ready [OF whitelist_add_frame, of api os w k p y]
    by (simp add: s wl_add_def wl_reliable_def case_prod_beta)
  show "wl_reliable (fst (wl_remove s k))"
    using r same_handles_ready [OF whitelist_remove_frame, of api w k]
    by (simp add: s wl_remove_def wl_reliable_def case_prod_beta)
qed

lemma wl_check_complete: "wl_reliable s \<Longrightarrow> k \<in> wl_members s \<Longrightarrow> snd (wl_check s k)"
proof -
  assume a: "wl_reliable s" "k \<in> wl_members s"
  obtain api tbl w where s: "s = (api, tbl, w)" by (cases s)
  obtain w' r where c: "whitelist_check api w k = (w', r)" by fastforce
  show ?thesis using a s c whitelist_check_exact [OF _ _ _ c, of tbl]
    by (auto simp: wl_store_defs)
qed

interpretation wlr: complete_store wl_reliable "\<lambda>_. True" wl_members wl_check "wl_add os p y" wl_remove
  for os p y
proof
  fix s :: "'db wl_store" and k s' b
  assume r: "wl_reliable s"
  show "wl_check s k = (s', b) \<Longrightarrow>
    wl_reliable s' \<and> wl_members s' = wl_members s \<and> (b \<longrightarrow> k \<in> wl_members s)"
    using wl_check_law [OF wl_reliable_invar [OF r]] wl_reliable_kept(1) [OF r] by (metis fst_conv)
  show "wl_add os p y s k = (s', b) \<Longrightarrow>
    wl_reliable s' \<and> wl_members s' = (if b then insert k (wl_members s) else wl_members s)"
    using wl_add_law [OF wl_reliable_invar [OF r]] wl_reliable_kept(2) [OF r] by (metis fst_conv)
  show "wl_remove s k = (s', b) \<Longrightarrow>
    wl_reliable s' \<and> wl_members s' = (if b then wl_members s - {k} else wl_members s)"
    using wl_remove_law [OF wl_reliable_invar [OF r]] wl_reliable_kept(3) [OF r] by (metis fst_conv)
next
  fix s :: "'db wl_store" and k
  assume "wl_reliable s" "k \<in> wl_members s"
  then show "snd (wl_check s k)" by (rule wl_check_complete)
qed

end
