(* ===== verification/Cache.thy ===== *)
theory Cache
  imports Whitelist
begin

text \<open>
  \<open>src/src/daemon/whitelist_cache.c\<close>: the in-memory cache, a chained hash table of binary
  digests behind a bloom filter. The table is a list of chains indexed by
  \<open>hash_to_index\<close>, the filter a list of bytes; an array that is not allocated is the empty
  list. A digest is its 32 bytes. Every operation takes the lock for its whole access to the
  table, so each is one step of the model. Whether \<open>calloc\<close> and \<open>malloc\<close> succeed is an
  argument.
\<close>

section \<open>Constants and state\<close>

definition HASH_BYTES :: nat where "HASH_BYTES = 32"
definition HASH_HEX_LEN :: nat where "HASH_HEX_LEN = 64"
definition DEFAULT_TABLE_SIZE :: u32 where "DEFAULT_TABLE_SIZE = 65537"
definition BLOOM_SIZE_BITS :: u32 where "BLOOM_SIZE_BITS = 64 * 1024 * 8"
definition BLOOM_SIZE_BYTES :: nat where "BLOOM_SIZE_BYTES = 64 * 1024"
definition BLOOM_HASH_FUNCS :: nat where "BLOOM_HASH_FUNCS = 7"

type_synonym digest = "u8 list"

record cache =
  table :: "digest list list"
  table_size :: u32
  entry_count :: u32
  max_entries :: u32
  collisions :: u32
  bloom :: "u8 list"
  lookups :: u64
  hits :: u64
  misses :: u64
  bloom_rejections :: u64
  initialized :: bool

definition cache_zero :: cache where
  "cache_zero = \<lparr>table = [], table_size = 0, entry_count = 0, max_entries = 0, collisions = 0,
     bloom = [], lookups = 0, hits = 0, misses = 0, bloom_rejections = 0, initialized = False\<rparr>"

section \<open>Hexadecimal input\<close>

definition hex_value :: "char \<Rightarrow> nat option" where
  "hex_value c =
     (let n = of_char c :: nat in
      if 48 \<le> n \<and> n \<le> 57 then Some (n - 48)
      else if 97 \<le> n \<and> n \<le> 102 then Some (n - 87)
      else if 65 \<le> n \<and> n \<le> 70 then Some (n - 55)
      else None)"

text \<open>
  \<open>sscanf (s, "%2x", &val)\<close>: leading white space is skipped, then at most two characters
  are read as a hexadecimal number with an optional sign. \<open>None\<close> is a failed conversion,
  which leaves \<open>val\<close> without a value.
\<close>

definition sscanf_2x :: "string \<Rightarrow> u32 option" where
  "sscanf_2x s =
     (case take 2 (dropWhile isspace s) of
        [] \<Rightarrow> None
      | [c] \<Rightarrow> map_option of_nat (hex_value c)
      | c # d # _ \<Rightarrow>
          if c = CHR ''+'' then map_option of_nat (hex_value d)
          else if c = CHR ''-'' then map_option (\<lambda>n. - of_nat n) (hex_value d)
          else (case hex_value c of
                  None \<Rightarrow> None
                | Some m \<Rightarrow>
                    (case hex_value d of
                       Some n \<Rightarrow> Some (of_nat (16 * m + n))
                     | None \<Rightarrow> if c = CHR ''0'' \<and> (d = CHR ''x'' \<or> d = CHR ''X'') then None
                               else Some (of_nat m))))"

text \<open>\<open>None\<close>: some byte would be made of an indeterminate \<open>val\<close>.\<close>

definition hex_to_bytes :: "string \<Rightarrow> digest option" where
  "hex_to_bytes hex =
     those (map (\<lambda>i. map_option ucast (sscanf_2x (drop (i * 2) hex))) [0..<HASH_BYTES])"

section \<open>Hash functions\<close>

text \<open>FNV-1a over the digest, modulo the size of the table.\<close>

definition fnv1a :: "digest \<Rightarrow> u32" where
  "fnv1a hash = foldl (\<lambda>h b. (h XOR ucast b) * 16777619) 2166136261 hash"

definition hash_to_index :: "digest \<Rightarrow> u32 \<Rightarrow> u32" where
  "hash_to_index hash tsize = fnv1a hash mod tsize"

text \<open>Four bytes as a little-endian word: \<open>memcpy (&h, hash + offset, 4)\<close>.\<close>

definition le32 :: "u8 list \<Rightarrow> u32" where
  "le32 bs = ucast (bs ! 0) OR push_bit 8 (ucast (bs ! 1)) OR push_bit 16 (ucast (bs ! 2))
             OR push_bit 24 (ucast (bs ! 3))"

definition bloom_index :: "digest \<Rightarrow> nat \<Rightarrow> u32" where
  "bloom_index hash i =
     (let offset = (i * 4) mod HASH_BYTES;
          h0 = le32 (take 4 (drop offset hash));
          h1 = h0 XOR drop_bit 16 h0;
          h2 = h1 * 0x85ebca6b;
          h3 = h2 XOR drop_bit 13 h2
      in h3 mod BLOOM_SIZE_BITS)"

definition bloom_hashes :: "digest \<Rightarrow> u32 list" where
  "bloom_hashes hash = map (bloom_index hash) [0..<BLOOM_HASH_FUNCS]"

definition bloom_mask :: "u32 \<Rightarrow> u8" where
  "bloom_mask idx = push_bit (unat (idx mod 8)) 1"

definition bloom_set_bit :: "u32 \<Rightarrow> u8 list \<Rightarrow> u8 list" where
  "bloom_set_bit idx bits =
     bits[unat (idx div 8) := (bits ! unat (idx div 8)) OR bloom_mask idx]"

definition bloom_test_bit :: "u8 list \<Rightarrow> u32 \<Rightarrow> bool" where
  "bloom_test_bit bits idx \<longleftrightarrow> (bits ! unat (idx div 8)) AND bloom_mask idx \<noteq> 0"

definition bloom_add :: "digest \<Rightarrow> cache \<Rightarrow> cache" where
  "bloom_add hash c = c\<lparr>bloom := fold bloom_set_bit (bloom_hashes hash) (bloom c)\<rparr>"

definition bloom_check :: "digest \<Rightarrow> cache \<Rightarrow> bool" where
  "bloom_check hash c = list_all (bloom_test_bit (bloom c)) (bloom_hashes hash)"

section \<open>Operations\<close>

definition cache_init :: "bool \<Rightarrow> bool \<Rightarrow> u32 \<Rightarrow> cache \<Rightarrow> cache \<times> int" where
  "cache_init calloc_table calloc_bloom max_entries_arg c =
     (if initialized c then (c, 0)
      else let c1 = c\<lparr>table_size := DEFAULT_TABLE_SIZE, max_entries := max_entries_arg, entry_count := 0,
                      collisions := 0, lookups := 0, hits := 0, misses := 0,
                      bloom_rejections := 0\<rparr> in
      if \<not> calloc_table then (c1\<lparr>table := []\<rparr>, - 1)
      else let c2 = c1\<lparr>table := replicate (unat (table_size c1)) []\<rparr> in
      if \<not> calloc_bloom then (c2\<lparr>bloom := [], table := []\<rparr>, - 1)
      else (c2\<lparr>bloom := replicate BLOOM_SIZE_BYTES 0, initialized := True\<rparr>, 0))"

definition cache_shutdown :: "cache \<Rightarrow> cache" where
  "cache_shutdown c =
     (if \<not> initialized c then c
      else c\<lparr>table := [], bloom := [], initialized := False\<rparr>)"

text \<open>The walk along a chain: \<open>memcmp\<close> on each entry until one is equal.\<close>

fun chain_find :: "digest \<Rightarrow> digest list \<Rightarrow> bool" where
  "chain_find hash [] = False"
| "chain_find hash (e # es) = (if e = hash then True else chain_find hash es)"

definition cache_check :: "cache \<Rightarrow> string \<Rightarrow> (cache \<times> int) outcome" where
  "cache_check c hash_hex =
     (if \<not> initialized c \<or> length hash_hex \<noteq> HASH_HEX_LEN then Ret (c, 0)
      else case hex_to_bytes hash_hex of
        None \<Rightarrow> Undef
      | Some hash \<Rightarrow>
          (let c1 = c\<lparr>lookups := lookups c + 1\<rparr> in
           if \<not> bloom_check hash c1
           then Ret (c1\<lparr>bloom_rejections := bloom_rejections c1 + 1, misses := misses c1 + 1\<rparr>, 0)
           else let idx = hash_to_index hash (table_size c1) in
                if chain_find hash (table c1 ! unat idx)
                then Ret (c1\<lparr>hits := hits c1 + 1\<rparr>, 1)
                else Ret (c1\<lparr>misses := misses c1 + 1\<rparr>, 0)))"

text \<open>
  \<open>cache_add\<close> returns the whitelist too, since \<open>persist\<close> makes it add the digest there;
  what that call returns is ignored by the source.
\<close>

definition cache_add ::
  "'db sqlite \<Rightarrow> os \<Rightarrow> bool \<Rightarrow> cache \<Rightarrow> 'db whitelist \<Rightarrow> string \<Rightarrow> string \<Rightarrow> int \<Rightarrow>
   (cache \<times> 'db whitelist \<times> int) outcome" where
  "cache_add api os malloc_ok c w hash_hex path persist =
     (if \<not> initialized c \<or> length hash_hex \<noteq> HASH_HEX_LEN then Ret (c, w, - 1)
      else if 0 < max_entries c \<and> max_entries c \<le> entry_count c then Ret (c, w, - 1)
      else case hex_to_bytes hash_hex of
        None \<Rightarrow> Undef
      | Some hash \<Rightarrow>
          (let idx = unat (hash_to_index hash (table_size c)) in
           if chain_find hash (table c ! idx) then Ret (c, w, 0)
           else if \<not> malloc_ok then Ret (c, w, - 1)
           else let c1 = (if table c ! idx \<noteq> [] then c\<lparr>collisions := collisions c + 1\<rparr> else c);
                    c2 = c1\<lparr>table := (table c1)[idx := hash # table c1 ! idx],
                            entry_count := entry_count c1 + 1\<rparr>;
                    c3 = bloom_add hash c2
                in if persist \<noteq> 0 then Ret (c3, fst (whitelist_add api os w hash_hex path 0), 0)
                   else Ret (c3, w, 0)))"

text \<open>Unlinking the first equal entry; \<open>None\<close> where there is none.\<close>

fun chain_remove :: "digest \<Rightarrow> digest list \<Rightarrow> digest list option" where
  "chain_remove hash [] = None"
| "chain_remove hash (e # es) =
     (if e = hash then Some es else map_option ((#) e) (chain_remove hash es))"

definition cache_remove :: "cache \<Rightarrow> string \<Rightarrow> (cache \<times> int) outcome" where
  "cache_remove c hash_hex =
     (if \<not> initialized c \<or> length hash_hex \<noteq> HASH_HEX_LEN then Ret (c, - 1)
      else case hex_to_bytes hash_hex of
        None \<Rightarrow> Undef
      | Some hash \<Rightarrow>
          (let idx = unat (hash_to_index hash (table_size c)) in
           case chain_remove hash (table c ! idx) of
             Some rest \<Rightarrow>
               Ret (c\<lparr>table := (table c)[idx := rest], entry_count := entry_count c - 1\<rparr>, 0)
           | None \<Rightarrow> Ret (c, - 1)))"

record cache_stats =
  st_total_entries :: u32
  st_hash_table_size :: u32
  st_collisions :: u32
  st_lookups :: u64
  st_hits :: u64
  st_misses :: u64
  st_bloom_rejections :: u64
  st_memory_bytes :: u64

text \<open>Sizes of a pointer and of a \<open>hash_entry_t\<close> (32 bytes and a pointer) on a 64-bit machine.\<close>

definition cache_get_stats :: "cache \<Rightarrow> cache_stats" where
  "cache_get_stats c =
     (if \<not> initialized c
      then \<lparr>st_total_entries = 0, st_hash_table_size = 0, st_collisions = 0, st_lookups = 0,
            st_hits = 0, st_misses = 0, st_bloom_rejections = 0, st_memory_bytes = 0\<rparr>
      else \<lparr>st_total_entries = entry_count c, st_hash_table_size = table_size c,
            st_collisions = collisions c, st_lookups = lookups c, st_hits = hits c,
            st_misses = misses c, st_bloom_rejections = bloom_rejections c,
            st_memory_bytes = ucast (table_size c) * 8 + ucast (entry_count c) * 40
              + of_nat BLOOM_SIZE_BYTES\<rparr>)"

definition cache_clear :: "cache \<Rightarrow> cache" where
  "cache_clear c =
     (if \<not> initialized c then c
      else c\<lparr>table := map (\<lambda>_. []) (table c), bloom := replicate BLOOM_SIZE_BYTES 0,
             entry_count := 0, collisions := 0\<rparr>)"

text \<open>The result is \<open>g_cache.entry_count\<close> converted to \<open>int\<close>.\<close>

definition cache_load_from_db :: "cache \<Rightarrow> cache \<times> int" where
  "cache_load_from_db c = (c, sint (entry_count c))"

section \<open>The bloom filter\<close>

lemmas cache_consts = HASH_BYTES_def HASH_HEX_LEN_def DEFAULT_TABLE_SIZE_def BLOOM_SIZE_BITS_def
  BLOOM_SIZE_BYTES_def BLOOM_HASH_FUNCS_def

lemma length_bloom_set_bit [simp]: "length (bloom_set_bit i bits) = length bits"
  by (simp add: bloom_set_bit_def)

lemma length_fold_bloom [simp]: "length (fold bloom_set_bit is bits) = length bits"
  by (induction "is" arbitrary: bits) auto

lemma bloom_mask_nonzero: "bloom_mask i \<noteq> 0"
proof -
  have "unat (i mod 8) < 8" by (simp add: unat_mod)
  then have "bit (bloom_mask i) (unat (i mod 8))" by (simp add: bloom_mask_def bit_simps)
  then show ?thesis by (metis bit_0_eq bot_apply bot_bool_def)
qed

lemma bloom_test_set:
  "unat (i div 8) < length bits \<Longrightarrow> bloom_test_bit (bloom_set_bit i bits) i"
proof -
  assume l: "unat (i div 8) < length bits"
  have "(x OR bloom_mask i) AND bloom_mask i = bloom_mask i" for x :: u8
    by (auto simp: bit_eq_iff bit_and_iff bit_or_iff)
  with l show ?thesis by (simp add: bloom_test_bit_def bloom_set_bit_def bloom_mask_nonzero)
qed

lemma bloom_test_kept:
  "bloom_test_bit bits j \<Longrightarrow> bloom_test_bit (bloom_set_bit i bits) j"
proof -
  assume t: "bloom_test_bit bits j"
  have mono: "(x OR y) AND m \<noteq> 0" if "x AND m \<noteq> 0" for x y m :: u8
    using that by (simp add: bit_eq_iff bit_and_iff bit_or_iff) blast
  show ?thesis
  proof (cases "unat (i div 8) < length bits \<and> unat (j div 8) = unat (i div 8)")
    case True
    with t show ?thesis by (simp add: bloom_test_bit_def bloom_set_bit_def mono)
  next
    case False
    with t show ?thesis
      by (cases "unat (i div 8) < length bits")
        (auto simp: bloom_test_bit_def bloom_set_bit_def list_update_beyond)
  qed
qed

lemma bloom_fold_kept: "bloom_test_bit bits j \<Longrightarrow> bloom_test_bit (fold bloom_set_bit is bits) j"
  by (induction "is" arbitrary: bits) (auto intro: bloom_test_kept)

lemma bloom_fold_test:
  "\<forall>i \<in> set is. unat (i div 8) < length bits \<Longrightarrow> j \<in> set is \<Longrightarrow>
   bloom_test_bit (fold bloom_set_bit is bits) j"
  by (induction "is" arbitrary: bits) (auto intro: bloom_fold_kept bloom_test_set)

lemma bloom_index_bound: "unat (bloom_index d i div 8) < 65536"
proof -
  have "unat (x mod (524288 :: u32)) div 8 < 65536" for x :: u32
  proof -
    have "unat (x mod 524288) < 524288" by (simp add: unat_mod)
    then show ?thesis by simp
  qed
  then show ?thesis by (simp add: bloom_index_def Let_def BLOOM_SIZE_BITS_def unat_div)
qed

lemma bloom_check_add:
  assumes "length (bloom c) = 65536"
  shows "bloom_check d (bloom_add d c)"
    and "bloom_check e c \<Longrightarrow> bloom_check e (bloom_add d c)"
proof -
  have "\<forall>i \<in> set (bloom_hashes d). unat (i div 8) < length (bloom c)"
    using assms by (auto simp: bloom_hashes_def bloom_index_bound)
  then show "bloom_check d (bloom_add d c)"
    by (auto simp: bloom_check_def bloom_add_def list_all_iff bloom_fold_test)
  show "bloom_check e c \<Longrightarrow> bloom_check e (bloom_add d c)"
    by (auto simp: bloom_check_def bloom_add_def list_all_iff bloom_fold_kept)
qed

lemma hash_to_index_bound: "unat (hash_to_index d DEFAULT_TABLE_SIZE) < 65537"
  by (simp add: hash_to_index_def DEFAULT_TABLE_SIZE_def unat_mod)

section \<open>Invariant and abstraction\<close>

definition cache_digests :: "cache \<Rightarrow> digest set" where
  "cache_digests c = (\<Union>chain \<in> set (table c). set chain)"

definition chain_ok :: "cache \<Rightarrow> nat \<Rightarrow> bool" where
  "chain_ok c i \<longleftrightarrow> distinct (table c ! i) \<and>
     (\<forall>d \<in> set (table c ! i). length d = 32 \<and>
        unat (hash_to_index d DEFAULT_TABLE_SIZE) = i \<and> bloom_check d c)"

definition cache_wf :: "cache \<Rightarrow> bool" where
  "cache_wf c \<longleftrightarrow> initialized c \<and> table_size c = DEFAULT_TABLE_SIZE \<and>
     length (table c) = 65537 \<and> length (bloom c) = 65536 \<and> (\<forall>i < 65537. chain_ok c i) \<and>
     entry_count c = of_nat (card (cache_digests c)) \<and>
     (0 < max_entries c \<longrightarrow> card (cache_digests c) \<le> unat (max_entries c)) \<and>
     lookups c = hits c + misses c"

lemma chain_find_iff [simp]: "chain_find d es \<longleftrightarrow> d \<in> set es"
  by (induction es) auto

lemma chain_remove_None [simp]: "chain_remove d es = None \<longleftrightarrow> d \<notin> set es"
  by (induction es) auto

lemma chain_remove_Some:
  "chain_remove d es = Some rest \<Longrightarrow> distinct es \<Longrightarrow>
   set rest = set es - {d} \<and> distinct rest \<and> Suc (length rest) = length es \<and> d \<in> set es"
  by (induction es arbitrary: rest) (fastforce split: if_splits)+

abbreviation bucket :: "digest \<Rightarrow> nat" where
  "bucket d \<equiv> unat (hash_to_index d DEFAULT_TABLE_SIZE)"

lemma cache_wf_chain: "cache_wf c \<Longrightarrow> i < 65537 \<Longrightarrow> chain_ok c i"
  by (simp only: cache_wf_def)

lemma chain_ok_entry:
  "chain_ok c i \<Longrightarrow> d \<in> set (table c ! i) \<Longrightarrow> length d = 32 \<and> bucket d = i \<and> bloom_check d c"
  by (simp only: chain_ok_def)

lemma cache_digests_index:
  assumes "cache_wf c"
  shows "d \<in> cache_digests c \<longleftrightarrow> d \<in> set (table c ! bucket d)"
proof
  have len: "length (table c) = 65537" using assms by (simp add: cache_wf_def)
  {
    assume "d \<in> cache_digests c"
    then obtain chain where "chain \<in> set (table c)" and d: "d \<in> set chain"
      by (auto simp: cache_digests_def)
    then obtain i where "i < 65537" "table c ! i = chain" by (metis in_set_conv_nth len)
    then show "d \<in> set (table c ! bucket d)"
      using chain_ok_entry [OF cache_wf_chain [OF assms]] d by metis
  next
    assume "d \<in> set (table c ! bucket d)"
    then show "d \<in> cache_digests c"
      using hash_to_index_bound [of d] len by (metis UN_I cache_digests_def nth_mem)
  }
qed

lemma cache_digests_entry:
  "cache_wf c \<Longrightarrow> d \<in> cache_digests c \<Longrightarrow> length d = 32 \<and> bloom_check d c"
  using chain_ok_entry cache_wf_chain hash_to_index_bound cache_digests_index by blast

lemma finite_cache_digests [simp]: "finite (cache_digests c)"
  by (simp add: cache_digests_def)

lemma bloom_check_cong: "bloom c' = bloom c \<Longrightarrow> bloom_check d c' = bloom_check d c"
  by (simp add: bloom_check_def)

section \<open>Digests and their hexadecimal form\<close>

lemma hex_char_facts:
  "n < 16 \<Longrightarrow> hex_value (hex_chars ! n) = Some n \<and> \<not> isspace (hex_chars ! n) \<and>
   hex_chars ! n \<noteq> CHR ''+'' \<and> hex_chars ! n \<noteq> CHR ''-''"
proof -
  have "\<forall>n \<in> set [0..<16]. hex_value (hex_chars ! n) = Some n \<and> \<not> isspace (hex_chars ! n) \<and>
     hex_chars ! n \<noteq> CHR ''+'' \<and> hex_chars ! n \<noteq> CHR ''-''"
    by code_simp
  then show "n < 16 \<Longrightarrow> ?thesis" by simp
qed

lemma ucast_byte [simp]: "ucast (ucast (b :: u8) :: u32) = b"
  by (rule bit_word_eqI) (simp add: bit_simps)

lemma sscanf_byte: "sscanf_2x (bytes_to_hex (b # bs)) = Some (of_nat (unat b))"
proof -
  have n: "unat b div 16 < 16" "unat b mod 16 < 16" using unat_byte [of b] by simp_all
  have d: "16 * (unat b div 16) + unat b mod 16 = unat b" by simp
  show ?thesis
    unfolding bytes_to_hex.simps unat_high_nibble
    unfolding unat_nibble sscanf_2x_def
    using hex_char_facts [OF n(1)] hex_char_facts [OF n(2)] d by simp
qed

lemma drop_bytes_to_hex: "drop (i * 2) (bytes_to_hex bs) = bytes_to_hex (drop i bs)"
proof (induction bs arbitrary: i)
  case Nil
  then show ?case by simp
next
  case (Cons b bs)
  then show ?case by (cases i) auto
qed

lemma hex_to_bytes_to_hex: "length d = 32 \<Longrightarrow> hex_to_bytes (bytes_to_hex d) = Some d"
proof -
  assume l: "length d = 32"
  have "map_option ucast (sscanf_2x (drop (i * 2) (bytes_to_hex d))) = Some (d ! i)" if "i < 32" for i
  proof -
    have "drop i d = d ! i # drop (Suc i) d" using that l by (simp add: Cons_nth_drop_Suc)
    then show ?thesis by (simp only: drop_bytes_to_hex sscanf_byte) simp
  qed
  then have "hex_to_bytes (bytes_to_hex d) = those (map (\<lambda>i. Some (d ! i)) [0..<32])"
    unfolding hex_to_bytes_def HASH_BYTES_def by (intro arg_cong [where f = those] map_cong) auto
  also have "\<dots> = Some (map ((!) d) [0..<length d])" by (simp only: those_map_Some l)
  finally show ?thesis by (simp only: map_nth)
qed

lemma hex_to_bytes_length: "hex_to_bytes h = Some d \<Longrightarrow> length d = 32"
  unfolding hex_to_bytes_def HASH_BYTES_def by (drule those_length) simp

lemma bytes_to_hex_inj: "length d = 32 \<Longrightarrow> length e = 32 \<Longrightarrow> bytes_to_hex d = bytes_to_hex e \<longleftrightarrow> d = e"
  using hex_to_bytes_to_hex by (metis option.inject)

section \<open>The operations keep the invariant\<close>

lemma cache_wf_fields:
  "cache_wf c \<Longrightarrow> initialized c" "cache_wf c \<Longrightarrow> table_size c = DEFAULT_TABLE_SIZE"
  "cache_wf c \<Longrightarrow> length (table c) = 65537" "cache_wf c \<Longrightarrow> length (bloom c) = 65536"
  "cache_wf c \<Longrightarrow> entry_count c = of_nat (card (cache_digests c))"
  "cache_wf c \<Longrightarrow> 0 < max_entries c \<Longrightarrow> card (cache_digests c) \<le> unat (max_entries c)"
  "cache_wf c \<Longrightarrow> lookups c = hits c + misses c"
  unfolding cache_wf_def by blast+

text \<open>Only the counters of lookups change: the invariant and the contents are untouched.\<close>

lemma cache_wf_counters:
  assumes "cache_wf c" and "table c' = table c" "bloom c' = bloom c" "table_size c' = table_size c"
    "initialized c' = initialized c" "entry_count c' = entry_count c" "max_entries c' = max_entries c"
    and "lookups c' = hits c' + misses c'"
  shows "cache_wf c' \<and> cache_digests c' = cache_digests c"
proof -
  have d: "cache_digests c' = cache_digests c" by (simp add: cache_digests_def assms(2))
  have "chain_ok c' i = chain_ok c i" for i
    by (simp add: chain_ok_def assms(2) bloom_check_cong [OF assms(3)])
  then show ?thesis using assms d by (simp only: cache_wf_def) simp
qed

lemma cache_init_wf:
  assumes "\<not> initialized c"
  shows "cache_init ct cb n c = (c', r) \<Longrightarrow>
    (r = 0 \<longleftrightarrow> ct \<and> cb) \<and> (r = 0 \<or> r = - 1) \<and>
    (r = 0 \<longrightarrow> cache_wf c' \<and> cache_digests c' = {} \<and> max_entries c' = n) \<and>
    (r = - 1 \<longrightarrow> \<not> initialized c')"
  using assms
  by (auto simp: cache_init_def Let_def cache_wf_def cache_digests_def chain_ok_def cache_consts
      split: if_splits)

lemma cache_clear_wf:
  assumes "cache_wf c"
  shows "cache_wf (cache_clear c) \<and> cache_digests (cache_clear c) = {}"
proof -
  have d: "cache_digests (cache_clear c) = {}"
    using cache_wf_fields(1) [OF assms] by (auto simp: cache_digests_def cache_clear_def)
  have "chain_ok (cache_clear c) i" if "i < 65537" for i
    using cache_wf_fields [OF assms] that by (simp add: chain_ok_def cache_clear_def)
  then show ?thesis using d cache_wf_fields [OF assms]
    by (simp add: cache_wf_def) (simp add: cache_clear_def BLOOM_SIZE_BYTES_def)
qed

lemma cache_check_exact:
  assumes "cache_wf c" and "length h = 64" and "hex_to_bytes h = Some d"
  shows "\<exists>c'. cache_check c h = Ret (c', if d \<in> cache_digests c then 1 else 0) \<and>
    cache_wf c' \<and> cache_digests c' = cache_digests c \<and> lookups c' = lookups c + 1"
proof -
  note f = cache_wf_fields [OF assms(1)]
  have mem: "d \<in> cache_digests c \<longleftrightarrow> d \<in> set (table c ! bucket d)"
    by (rule cache_digests_index [OF assms(1)])
  have bc: "bloom_check d (c\<lparr>lookups := n\<rparr>) = bloom_check d c" for n
    by (simp add: bloom_check_def)
  show ?thesis
  proof (cases "d \<in> cache_digests c")
    case True
    then have "bloom_check d c" using cache_digests_entry [OF assms(1)] by blast
    then have "cache_check c h = Ret (c\<lparr>lookups := lookups c + 1, hits := hits c + 1\<rparr>, 1)"
      using True assms(2,3) f mem bc by (simp add: cache_check_def Let_def HASH_HEX_LEN_def)
    moreover have "cache_wf (c\<lparr>lookups := lookups c + 1, hits := hits c + 1\<rparr>) \<and>
      cache_digests (c\<lparr>lookups := lookups c + 1, hits := hits c + 1\<rparr>) = cache_digests c"
      by (rule cache_wf_counters [OF assms(1)]) (simp_all add: f(7))
    ultimately show ?thesis using True by auto
  next
    case False
    let ?c1 = "c\<lparr>lookups := lookups c + 1, misses := misses c + 1\<rparr>"
    let ?c2 = "c\<lparr>lookups := lookups c + 1, misses := misses c + 1,
                 bloom_rejections := bloom_rejections c + 1\<rparr>"
    have "cache_check c h = Ret (if bloom_check d c then ?c1 else ?c2, 0)"
      using False assms(2,3) f mem bc by (simp add: cache_check_def Let_def HASH_HEX_LEN_def)
    moreover have "cache_wf ?c1 \<and> cache_digests ?c1 = cache_digests c"
      by (rule cache_wf_counters [OF assms(1)]) (simp_all add: f(7))
    moreover have "cache_wf ?c2 \<and> cache_digests ?c2 = cache_digests c"
      by (rule cache_wf_counters [OF assms(1)]) (simp_all add: f(7))
    ultimately show ?thesis using False by auto
  qed
qed

lemma cache_room:
  assumes "cache_wf c" and "\<not> (0 < max_entries c \<and> max_entries c \<le> entry_count c)"
  shows "0 < max_entries c \<longrightarrow> Suc (card (cache_digests c)) \<le> unat (max_entries c)"
proof
  assume m: "0 < max_entries c"
  have "card (cache_digests c) \<le> unat (max_entries c)" by (rule cache_wf_fields(6) [OF assms(1) m])
  moreover have "unat (max_entries c) < 2 ^ 32" by (rule unat_u32)
  ultimately have "unat (entry_count c) = card (cache_digests c)"
    using cache_wf_fields(5) [OF assms(1)] by (simp add: unat_of_nat)
  then show "Suc (card (cache_digests c)) \<le> unat (max_entries c)"
    using assms(2) m by (simp add: word_le_nat_alt)
qed

lemma cache_insert_wf:
  assumes wf: "cache_wf c" and d: "length d = 32" "d \<notin> cache_digests c"
    and room: "0 < max_entries c \<longrightarrow> Suc (card (cache_digests c)) \<le> unat (max_entries c)"
    and c': "c' = bloom_add d (c\<lparr>collisions := k,
      table := (table c)[bucket d := d # table c ! bucket d], entry_count := entry_count c + 1\<rparr>)"
  shows "cache_wf c' \<and> cache_digests c' = insert d (cache_digests c)"
proof -
  note f = cache_wf_fields [OF wf]
  have b: "bucket d < length (table c)" using hash_to_index_bound f(3) by simp
  have t: "table c' = (table c)[bucket d := d # table c ! bucket d]"
    by (simp add: c' bloom_add_def)
  have dig: "cache_digests c' = insert d (cache_digests c)"
    unfolding cache_digests_def t by (rule Union_update_Cons [OF b])
  have new: "bloom_check d c'" and kept: "bloom_check e c \<Longrightarrow> bloom_check e c'" for e
    unfolding c' using f(4) bloom_check_cong [of "c\<lparr>collisions := k,
      table := (table c)[bucket d := d # table c ! bucket d], entry_count := entry_count c + 1\<rparr>" c]
    by (auto intro!: bloom_check_add)
  have "chain_ok c' i" if i: "i < 65537" for i
  proof -
    have ok: "chain_ok c i" by (rule cache_wf_chain [OF wf i])
    have "d \<notin> set (table c ! bucket d)" using d(2) cache_digests_index [OF wf] by blast
    then show ?thesis
      using ok b kept new d(1) by (auto simp: chain_ok_def t nth_update_cases)
  qed
  moreover have "length (bloom c') = 65536" "table_size c' = DEFAULT_TABLE_SIZE" "initialized c'"
    "max_entries c' = max_entries c" "entry_count c' = entry_count c + 1" "lookups c' = hits c' + misses c'"
    using f by (simp_all add: c' bloom_add_def)
  moreover have "length (table c') = 65537" using f(3) by (simp add: t)
  moreover have "card (cache_digests c') = Suc (card (cache_digests c))" using d(2) by (simp add: dig)
  ultimately show ?thesis using dig f(5) room by (simp only: cache_wf_def) simp
qed

definition cache_full :: "cache \<Rightarrow> bool" where
  "cache_full c \<longleftrightarrow> 0 < max_entries c \<and> max_entries c \<le> entry_count c"

lemma cache_add_exact:
  assumes "cache_wf c" and "length h = 64" and "hex_to_bytes h = Some d"
  shows "\<exists>c' w' r. cache_add api os malloc_ok c w h path persist = Ret (c', w', r) \<and> cache_wf c' \<and>
    (r = 0 \<or> r = - 1) \<and>
    (r = 0 \<longleftrightarrow> \<not> cache_full c \<and> (d \<in> cache_digests c \<or> malloc_ok)) \<and>
    cache_digests c' = (if r = 0 then insert d (cache_digests c) else cache_digests c) \<and>
    w' = (if r = 0 \<and> d \<notin> cache_digests c \<and> persist \<noteq> 0
          then fst (whitelist_add api os w h path 0) else w)"
proof -
  note f = cache_wf_fields [OF assms(1)]
  have mem: "d \<in> cache_digests c \<longleftrightarrow> d \<in> set (table c ! bucket d)"
    by (rule cache_digests_index [OF assms(1)])
  show ?thesis
  proof (cases "cache_full c \<or> d \<in> cache_digests c \<or> \<not> malloc_ok")
    case True
    then show ?thesis using assms f(1,2) mem
      by (auto simp: cache_add_def cache_full_def HASH_HEX_LEN_def Let_def)
  next
    case False
    let ?c = "bloom_add d (c\<lparr>collisions := (if table c ! bucket d \<noteq> [] then collisions c + 1
      else collisions c), table := (table c)[bucket d := d # table c ! bucket d],
      entry_count := entry_count c + 1\<rparr>)"
    have "cache_wf ?c \<and> cache_digests ?c = insert d (cache_digests c)"
      using False cache_room [OF assms(1)]
      by (intro cache_insert_wf [OF assms(1) hex_to_bytes_length [OF assms(3)] _ _ refl])
        (auto simp: cache_full_def)
    moreover have "cache_add api os malloc_ok c w h path persist =
      Ret (?c, if persist \<noteq> 0 then fst (whitelist_add api os w h path 0) else w, 0)"
      using False assms f(1,2) mem
      by (auto simp: cache_add_def cache_full_def HASH_HEX_LEN_def Let_def)
    ultimately show ?thesis using False by auto
  qed
qed

lemma cache_remove_exact:
  assumes wf: "cache_wf c" and "length h = 64" and "hex_to_bytes h = Some d"
  shows "\<exists>c' r. cache_remove c h = Ret (c', r) \<and> cache_wf c' \<and>
    r = (if d \<in> cache_digests c then 0 else - 1) \<and> cache_digests c' = cache_digests c - {d}"
proof -
  note f = cache_wf_fields [OF wf]
  have b: "bucket d < length (table c)" using hash_to_index_bound f(3) by simp
  have mem: "d \<in> cache_digests c \<longleftrightarrow> d \<in> set (table c ! bucket d)"
    by (rule cache_digests_index [OF wf])
  show ?thesis
  proof (cases "d \<in> cache_digests c")
    case False
    then have "chain_remove d (table c ! bucket d) = None" using mem by simp
    then have "cache_remove c h = Ret (c, - 1)"
      using assms f(1,2) by (simp add: cache_remove_def HASH_HEX_LEN_def Let_def del: chain_remove_None)
    then show ?thesis using False wf by auto
  next
    case True
    then obtain rest where rest: "chain_remove d (table c ! bucket d) = Some rest"
      using mem by (cases "chain_remove d (table c ! bucket d)") auto
    have "distinct (table c ! bucket d)"
      using cache_wf_chain [OF wf hash_to_index_bound] unfolding chain_ok_def by blast
    then have r: "set rest = set (table c ! bucket d) - {d}" "distinct rest"
      using chain_remove_Some [OF rest] by blast+
    let ?c = "c\<lparr>table := (table c)[bucket d := rest], entry_count := entry_count c - 1\<rparr>"
    have others: "d \<notin> set (table c ! j)" if "j < 65537" "j \<noteq> bucket d" for j
      using chain_ok_entry [OF cache_wf_chain [OF wf that(1)], of d] that(2) by blast
    have t: "table ?c = (table c)[bucket d := rest]" by simp
    have dig: "cache_digests ?c = cache_digests c - {d}"
      unfolding cache_digests_def t
      unfolding Union_update [OF b] Union_nth [of "table c"]
      by (rule Union_minus_one) (use b f(3) r(1) others in auto)
    have bl: "bloom_check e ?c = bloom_check e c" for e by (rule bloom_check_cong) simp
    have "chain_ok ?c i" if i: "i < 65537" for i
    proof (cases "i = bucket d")
      case True
      have "\<forall>e \<in> set rest. e \<in> set (table c ! i)" using r(1) True by blast
      then show ?thesis
        using cache_wf_chain [OF wf i] r(2) True
        unfolding chain_ok_def t bl nth_update_cases [OF b] if_P [OF True] by blast
    next
      case False
      then show ?thesis
        using cache_wf_chain [OF wf i]
        unfolding chain_ok_def t bl nth_update_cases [OF b] if_not_P [OF False] by blast
    qed
    moreover have crd: "card (cache_digests c) = Suc (card (cache_digests c - {d}))"
      by (rule card_Suc_Diff1 [OF finite_cache_digests True, symmetric])
    moreover have "0 < max_entries c \<longrightarrow> card (cache_digests c - {d}) \<le> unat (max_entries c)"
      using f(6) crd by (metis Suc_leD)
    ultimately have "cache_wf ?c \<and> cache_digests ?c = cache_digests c - {d}"
      using f unfolding cache_wf_def dig by simp
    moreover have "cache_remove c h = Ret (?c, 0)"
      using assms f(1,2) rest by (simp add: cache_remove_def HASH_HEX_LEN_def Let_def)
    ultimately show ?thesis using True by auto
  qed
qed

section \<open>The cache as a store of digests\<close>

text \<open>
  Keys are the 64 lower-case digits \<open>hash_fd\<close> writes. The state of the store is the cache
  alone: an addition without \<open>persist\<close> does not reach the database.
\<close>

definition hex_key :: "string \<Rightarrow> bool" where
  "hex_key h \<longleftrightarrow> (\<exists>d. length d = 32 \<and> h = bytes_to_hex d)"

definition cache_members :: "cache \<Rightarrow> string set" where
  "cache_members c = bytes_to_hex ` cache_digests c"

definition cs_check :: "cache \<Rightarrow> string \<Rightarrow> cache \<times> bool" where
  "cs_check c h = (case cache_check c h of Ret (c', r) \<Rightarrow> (c', r \<noteq> 0) | _ \<Rightarrow> (c, False))"

definition cs_add :: "'db sqlite \<Rightarrow> os \<Rightarrow> bool \<Rightarrow> 'db whitelist \<Rightarrow> string \<Rightarrow> cache \<Rightarrow> string \<Rightarrow> cache \<times> bool" where
  "cs_add api os malloc_ok w path c h =
     (case cache_add api os malloc_ok c w h path 0 of
        Ret (c', w', r) \<Rightarrow> (c', r = 0)
      | _ \<Rightarrow> (c, False))"

definition cs_remove :: "cache \<Rightarrow> string \<Rightarrow> cache \<times> bool" where
  "cs_remove c h = (case cache_remove c h of Ret (c', r) \<Rightarrow> (c', r = 0) | _ \<Rightarrow> (c, False))"

lemma hex_keyE:
  assumes "hex_key h"
  obtains d where "length d = 32" "h = bytes_to_hex d" "length h = 64" "hex_to_bytes h = Some d"
  using assms hex_to_bytes_to_hex by (auto simp: hex_key_def)

lemma cache_members_iff:
  "cache_wf c \<Longrightarrow> length d = 32 \<Longrightarrow> bytes_to_hex d \<in> cache_members c \<longleftrightarrow> d \<in> cache_digests c"
  using bytes_to_hex_inj cache_digests_entry by (fastforce simp: cache_members_def)

lemma cache_members_remove:
  assumes "cache_wf c" "length d = 32"
  shows "bytes_to_hex ` (cache_digests c - {d}) = cache_members c - {bytes_to_hex d}"
  using assms bytes_to_hex_inj cache_digests_entry by (fastforce simp: cache_members_def)

lemma cs_check_law:
  assumes "cache_wf c" "hex_key k" "cs_check c k = (c', b)"
  shows "cache_wf c' \<and> cache_members c' = cache_members c \<and> b = (k \<in> cache_members c)"
proof -
  obtain d where d: "length d = 32" "k = bytes_to_hex d" "length k = 64" "hex_to_bytes k = Some d"
    using assms(2) by (rule hex_keyE)
  show ?thesis
    using cache_check_exact [OF assms(1) d(3,4)] cache_members_iff [OF assms(1) d(1)] d(2) assms(3)
    by (auto simp: cs_check_def cache_members_def)
qed

lemma cs_add_law:
  assumes "cache_wf c" "hex_key k" "cs_add api os malloc_ok w path c k = (c', b)"
  shows "cache_wf c' \<and> cache_members c' = (if b then insert k (cache_members c) else cache_members c)"
proof -
  obtain d where d: "length d = 32" "k = bytes_to_hex d" "length k = 64" "hex_to_bytes k = Some d"
    using assms(2) by (rule hex_keyE)
  obtain c2 w2 r where r: "cache_add api os malloc_ok c w k path 0 = Ret (c2, w2, r)" "cache_wf c2"
    "cache_digests c2 = (if r = 0 then insert d (cache_digests c) else cache_digests c)"
    using cache_add_exact [OF assms(1) d(3,4), of api os malloc_ok w path 0] by blast
  have "c' = c2" "b \<longleftrightarrow> r = 0" using assms(3) r(1) by (simp_all add: cs_add_def)
  then show ?thesis using r(2) by (simp add: cache_members_def r(3) d(2))
qed

lemma cs_remove_law:
  assumes "cache_wf c" "hex_key k" "cs_remove c k = (c', b)"
  shows "cache_wf c' \<and> cache_members c' = (if b then cache_members c - {k} else cache_members c)"
proof -
  obtain d where d: "length d = 32" "k = bytes_to_hex d" "length k = 64" "hex_to_bytes k = Some d"
    using assms(2) by (rule hex_keyE)
  obtain c2 r where r: "cache_remove c k = Ret (c2, r)" "cache_wf c2"
    "r = (if d \<in> cache_digests c then 0 else - 1)" "cache_digests c2 = cache_digests c - {d}"
    using cache_remove_exact [OF assms(1) d(3,4)] by blast
  have "cache_members c2 = cache_members c - {k}"
    unfolding cache_members_def [of c2] r(4) d(2) by (rule cache_members_remove [OF assms(1) d(1)])
  moreover have "d \<notin> cache_digests c \<longrightarrow> k \<notin> cache_members c"
    using cache_members_iff [OF assms(1) d(1)] d(2) by simp
  moreover have "c' = c2" "b = (d \<in> cache_digests c)"
    using assms(3) r(1,3) by (auto simp: cs_remove_def split: if_splits)
  moreover have "k \<notin> cache_members c \<Longrightarrow> cache_members c - {k} = cache_members c" by blast
  ultimately show ?thesis using r(2) by (cases b) simp_all
qed

interpretation cs: complete_store cache_wf hex_key cache_members cs_check
    "cs_add api os malloc_ok w path" cs_remove
  for api os malloc_ok w path
proof
  fix c k c' b
  assume wf: "cache_wf c" and key: "hex_key k"
  show "cs_check c k = (c', b) \<Longrightarrow>
      cache_wf c' \<and> cache_members c' = cache_members c \<and> (b \<longrightarrow> k \<in> cache_members c)"
    using cs_check_law [OF wf key] by blast
  show "cs_add api os malloc_ok w path c k = (c', b) \<Longrightarrow>
      cache_wf c' \<and> cache_members c' = (if b then insert k (cache_members c) else cache_members c)"
    by (rule cs_add_law [OF wf key])
  show "cs_remove c k = (c', b) \<Longrightarrow>
      cache_wf c' \<and> cache_members c' = (if b then cache_members c - {k} else cache_members c)"
    by (rule cs_remove_law [OF wf key])
next
  fix c k
  assume "cache_wf c" "hex_key k" "k \<in> cache_members c"
  then show "snd (cs_check c k)" using cs_check_law [of c k] by (metis prod.collapse)
qed

end
