(* ===== verification/Scan.thy ===== *)
theory Scan
  imports Whitelist
begin

text \<open>
  The directory scan of \<open>src/src/daemon/whitelist.c\<close>: \<open>is_executable_file\<close> and
  \<open>whitelist_scan_directory\<close>. The recursion of the source has no bound of its own, so the
  model counts nested calls with fuel. Fuel \<open>4095\<close> is enough where no directory has a
  path of 4094 bytes or more; a directory with a path of exactly 4095 bytes sends the source
  into a recursion that never ends, because \<open>snprintf\<close> cuts the path of every entry back
  to the path of the directory itself.
\<close>

section \<open>Files worth listing, and the walk\<close>

definition S_ISREG :: "u32 \<Rightarrow> bool" where
  "S_ISREG m \<longleftrightarrow> m AND 0xF000 = 0x8000"

definition S_ISDIR :: "u32 \<Rightarrow> bool" where
  "S_ISDIR m \<longleftrightarrow> m AND 0xF000 = 0x4000"

definition is_executable_file :: "os \<Rightarrow> string \<Rightarrow> u32 \<Rightarrow> bool" where
  "is_executable_file os path st_mode =
     (if \<not> S_ISREG st_mode then False
      else if st_mode AND 0x49 = 0 then False
      else (case os_open os path of
              None \<Rightarrow> False
            | Some f \<Rightarrow> (let magic = fread f 4 in
                if length magic \<noteq> 4 then False else magic = elf_magic)))"

text \<open>\<open>snprintf (path, PATH_MAX, "%s/%s", dir, name)\<close>.\<close>

definition child_path :: "string \<Rightarrow> string \<Rightarrow> string" where
  "child_path dir name = take 4095 (dir @ ''/'' @ name)"

text \<open>
  The body of the loop over one directory's entries, with the recursive call \<open>scan\<close>, and
  the function itself; the fuel counts nested calls and \<open>None\<close> is running out of it.
\<close>

fun scan_entries ::
  "(string \<Rightarrow> 'db whitelist \<Rightarrow> ('db whitelist \<times> int) option) \<Rightarrow> 'c sha256_api \<Rightarrow> 'db sqlite \<Rightarrow> os \<Rightarrow>
   string \<Rightarrow> int \<Rightarrow> string list \<Rightarrow> 'db whitelist \<Rightarrow> int \<Rightarrow> ('db whitelist \<times> int) option" where
  "scan_entries scan sha api os dir recursive [] w count = Some (w, count)"
| "scan_entries scan sha api os dir recursive (name # names) w count =
     (let continue = scan_entries scan sha api os dir recursive names;
          path = child_path dir name in
      if name = ''.'' \<or> name = ''..'' then continue w count
      else (case os_lstat os path of
              None \<Rightarrow> continue w count
            | Some st_mode \<Rightarrow>
                if S_ISDIR st_mode \<and> recursive \<noteq> 0
                then (case scan path w of
                        None \<Rightarrow> None
                      | Some (w', n) \<Rightarrow> continue w' (count + n))
                else if is_executable_file os path st_mode
                then (case hash_file sha (os_open os) path of
                        None \<Rightarrow> continue w count
                      | Some hash \<Rightarrow>
                          (case whitelist_add api os w hash path 1 of
                             (w', rc) \<Rightarrow> continue w' (if rc = 0 then count + 1 else count)))
                else continue w count))"

primrec whitelist_scan_directory ::
  "nat \<Rightarrow> 'c sha256_api \<Rightarrow> 'db sqlite \<Rightarrow> os \<Rightarrow> int \<Rightarrow> string \<Rightarrow> 'db whitelist \<Rightarrow>
   ('db whitelist \<times> int) option" where
  "whitelist_scan_directory 0 sha api os recursive dir w = None"
| "whitelist_scan_directory (Suc fuel) sha api os recursive dir w =
     (case os_opendir os dir of
        None \<Rightarrow> Some (w, 0)
      | Some names \<Rightarrow>
          scan_entries (whitelist_scan_directory fuel sha api os recursive)
            sha api os dir recursive names w 0)"

section \<open>The files a scan visits\<close>

text \<open>
  \<open>under os recursive dir p\<close>: the walk from \<open>dir\<close> comes to \<open>p\<close>, which it does not
  descend into.
\<close>

inductive under :: "os \<Rightarrow> int \<Rightarrow> string \<Rightarrow> string \<Rightarrow> bool" for os recursive where
  entry: "os_opendir os dir = Some names \<Longrightarrow> name \<in> set names \<Longrightarrow> name \<noteq> ''.'' \<Longrightarrow> name \<noteq> ''..'' \<Longrightarrow>
     os_lstat os (child_path dir name) = Some m \<Longrightarrow> \<not> (S_ISDIR m \<and> recursive \<noteq> 0) \<Longrightarrow>
     under os recursive dir (child_path dir name)"
| below: "os_opendir os dir = Some names \<Longrightarrow> name \<in> set names \<Longrightarrow> name \<noteq> ''.'' \<Longrightarrow> name \<noteq> ''..'' \<Longrightarrow>
     os_lstat os (child_path dir name) = Some m \<Longrightarrow> S_ISDIR m \<Longrightarrow> recursive \<noteq> 0 \<Longrightarrow>
     under os recursive (child_path dir name) p \<Longrightarrow> under os recursive dir p"

section \<open>What one scan does to the whitelist\<close>

text \<open>
  A relation between whitelist states that holds across every single addition a scan may
  make holds across the whole scan.
\<close>

definition scan_step_ok ::
  "('db whitelist \<Rightarrow> 'db whitelist \<Rightarrow> bool) \<Rightarrow> 'c sha256_api \<Rightarrow> 'db sqlite \<Rightarrow> os \<Rightarrow> string \<Rightarrow> bool" where
  "scan_step_ok R sha api os p \<longleftrightarrow>
     (\<forall>w m h. os_lstat os p = Some m \<longrightarrow> is_executable_file os p m \<longrightarrow>
        hash_file sha (os_open os) p = Some h \<longrightarrow> R w (fst (whitelist_add api os w h p 1)))"

lemma scan_entries_relates:
  assumes opened: "os_opendir os dir = Some all" "set names \<subseteq> set all"
    and rec: "\<And>name m w w' n. name \<in> set all \<Longrightarrow> name \<noteq> ''.'' \<Longrightarrow> name \<noteq> ''..'' \<Longrightarrow>
      os_lstat os (child_path dir name) = Some m \<Longrightarrow> S_ISDIR m \<Longrightarrow> recursive \<noteq> 0 \<Longrightarrow>
      scan (child_path dir name) w = Some (w', n) \<Longrightarrow> R w w'"
    and refl: "\<And>w. R w w" and trans: "\<And>u v w. R u v \<Longrightarrow> R v w \<Longrightarrow> R u w"
    and step: "\<And>p. under os recursive dir p \<Longrightarrow> scan_step_ok R sha api os p"
  shows "scan_entries scan sha api os dir recursive names w count = Some (w', n) \<Longrightarrow> R w w'"
  using opened(2)
proof (induction names arbitrary: w count)
  case Nil
  then show ?case by (simp add: refl)
next
  case (Cons name names)
  let ?p = "child_path dir name"
  have sub: "name \<in> set all" "set names \<subseteq> set all" using Cons.prems(2) by auto
  note IH = Cons.IH [OF _ sub(2)] and prem = Cons.prems(1)
  show ?case
  proof (cases "name = ''.'' \<or> name = ''..'' \<or> os_lstat os ?p = None")
    case True
    with IH prem show ?thesis by (auto simp: Let_def split: option.splits if_splits)
  next
    case False
    then obtain m where m: "os_lstat os ?p = Some m" by auto
    show ?thesis
    proof (cases "S_ISDIR m \<and> recursive \<noteq> 0")
      case True
      with prem False m obtain v k where "scan ?p w = Some (v, k)"
        and "scan_entries scan sha api os dir recursive names v (count + k) = Some (w', n)"
        by (auto simp: Let_def split: option.splits)
      then show ?thesis using IH rec [OF sub(1) _ _ m] False True trans by blast
    next
      case nodir: False
      have und: "under os recursive dir ?p"
        using under.entry [OF opened(1) sub(1) _ _ m nodir] False by blast
      show ?thesis
      proof (cases "is_executable_file os ?p m \<and> hash_file sha (os_open os) ?p \<noteq> None")
        case True
        then obtain h where h: "hash_file sha (os_open os) ?p = Some h" by auto
        obtain v rc where a: "whitelist_add api os w h ?p 1 = (v, rc)" by fastforce
        have "R w v" using step [OF und] m h True a unfolding scan_step_ok_def by (metis fst_conv)
        moreover have "R v w'"
          using prem False m nodir True h a
          by (intro IH [of v "if rc = 0 then count + 1 else count"]) (auto simp: Let_def)
        ultimately show ?thesis by (rule trans)
      next
        case no: False
        with prem False m nodir show ?thesis
          by (intro IH [of w count]) (auto simp: Let_def split: if_splits option.splits)
      qed
    qed
  qed
qed

lemma scan_relates:
  assumes refl: "\<And>w. R w w" and trans: "\<And>u v w. R u v \<Longrightarrow> R v w \<Longrightarrow> R u w"
    and step: "\<And>p. under os recursive dir p \<Longrightarrow> scan_step_ok R sha api os p"
  shows "whitelist_scan_directory fuel sha api os recursive dir w = Some (w', n) \<Longrightarrow> R w w'"
  using step
proof (induction fuel arbitrary: dir w w' n)
  case 0
  then show ?case by simp
next
  case (Suc fuel)
  show ?case
  proof (cases "os_opendir os dir")
    case None
    with Suc.prems(1) show ?thesis by (simp add: refl)
  next
    case (Some names)
    with Suc.prems(1) have ent:
      "scan_entries (whitelist_scan_directory fuel sha api os recursive) sha api os dir recursive
         names w 0 = Some (w', n)" by simp
    show ?thesis
    proof (rule scan_entries_relates [OF Some order_refl _ refl trans _ ent])
      fix name m v v' k
      assume c: "name \<in> set names" "name \<noteq> ''.''" "name \<noteq> ''..''"
        "os_lstat os (child_path dir name) = Some m" "S_ISDIR m" "recursive \<noteq> 0"
        and r: "whitelist_scan_directory fuel sha api os recursive (child_path dir name) v = Some (v', k)"
      show "R v v'"
        using Suc.IH [OF r] Suc.prems(2) under.below [OF Some c] by blast
    qed (use Suc.prems(2) in blast)+
  qed
qed

lemma scan_frame:
  "whitelist_scan_directory fuel sha api os recursive dir w = Some (w', n) \<Longrightarrow> same_handles w w'"
  by (erule scan_relates [rotated -1])
    (auto simp: scan_step_ok_def intro: same_handles_trans whitelist_add_frame)

text \<open>The digest and the row a visited executable file gives.\<close>

definition lists_file ::
  "(u8 list \<Rightarrow> u8 list) \<Rightarrow> os \<Rightarrow> string \<Rightarrow> string \<Rightarrow> whitelist_row option \<Rightarrow> bool" where
  "lists_file H os p h row \<longleftrightarrow>
     (\<exists>m f t. os_lstat os p = Some m \<and> S_ISREG m \<and> m AND 0x49 \<noteq> 0 \<and>
        os_open os p = Some f \<and> prefix elf_magic (fd_content f) \<and>
        h = bytes_to_hex (H (fd_content f)) \<and>
        row = Some \<lparr>row_path = p, row_added_time = t, row_added_by = 0, row_is_system = 1\<rparr>)"

definition opens_at_start :: "os \<Rightarrow> bool" where
  "opens_at_start os \<longleftrightarrow> (\<forall>p f. os_open os p = Some f \<longrightarrow> fd_pos f = 0)"

lemma is_executable_fileD:
  assumes "is_executable_file os p m" and "opens_at_start os"
  shows "S_ISREG m \<and> m AND 0x49 \<noteq> 0 \<and> (\<exists>f. os_open os p = Some f \<and> prefix elf_magic (fd_content f))"
  using assms fread_magic
  by (auto simp: is_executable_file_def opens_at_start_def Let_def split: if_splits option.splits)

lemma hash_file_content:
  assumes "sha256_spec sha fed H" and "hash_file sha open_file p = Some h" and "open_file p = Some f"
  shows "h = bytes_to_hex (H (fd_content f))"
proof -
  obtain f' where "hash_fd sha f = (f', Some h)"
    using assms(2,3) by (cases "hash_fd sha f") (simp add: hash_file_def)
  then show ?thesis using hash_fd_content [OF assms(1)] by blast
qed

lemma scan_step_lists:
  assumes "sha256_spec sha fed H" "sqlite_spec api tbl" "opens_at_start os"
    and q: "under os recursive dir p"
  shows "scan_step_ok (\<lambda>w w'. \<forall>h. wl_table tbl w' h = wl_table tbl w h \<or>
    (\<exists>p. under os recursive dir p \<and> lists_file H os p h (wl_table tbl w' h))) sha api os p"
  unfolding scan_step_ok_def
proof (intro allI impI)
  fix w m h k
  assume m: "os_lstat os p = Some m" and ex: "is_executable_file os p m"
    and h: "hash_file sha (os_open os) p = Some h"
  obtain f where f: "os_open os p = Some f" "prefix elf_magic (fd_content f)"
    and mode: "S_ISREG m" "m AND 0x49 \<noteq> 0"
    using is_executable_fileD [OF ex assms(3)] by blast
  note h' = hash_file_content [OF assms(1) h f(1)]
  obtain w' r where a: "whitelist_add api os w h p 1 = (w', r)" by fastforce
  have new: "lists_file H os p h (Some \<lparr>row_path = p, row_added_time = t, row_added_by = 0,
      row_is_system = 1\<rparr>)" for t
    using m mode f h' by (auto simp: lists_file_def)
  have "wl_table tbl w' k = wl_table tbl w k \<or>
      (\<exists>p. under os recursive dir p \<and> lists_file H os p k (wl_table tbl w' k))"
    using whitelist_add_table [OF assms(2) a] new q by (cases "k = h") auto
  with a show "wl_table tbl (fst (whitelist_add api os w h p 1)) k = wl_table tbl w k \<or>
      (\<exists>q. under os recursive dir q \<and>
        lists_file H os q k (wl_table tbl (fst (whitelist_add api os w h p 1)) k))"
    by simp
qed

lemma scan_lists:
  assumes "sha256_spec sha fed H" "sqlite_spec api tbl" "opens_at_start os"
    and "whitelist_scan_directory fuel sha api os recursive dir w = Some (w', n)"
  shows "wl_table tbl w' h = wl_table tbl w h \<or>
    (\<exists>p. under os recursive dir p \<and> lists_file H os p h (wl_table tbl w' h))"
proof -
  have "\<forall>h. wl_table tbl w' h = wl_table tbl w h \<or>
    (\<exists>p. under os recursive dir p \<and> lists_file H os p h (wl_table tbl w' h))"
    by (rule scan_relates [OF _ _ _ assms(4)])
      (simp, metis, erule scan_step_lists [OF assms(1-3)])
  then show ?thesis by blast
qed

section \<open>What a scan does not miss\<close>

lemma whitelist_add_dom:
  "sqlite_spec api tbl \<Longrightarrow>
   dom (wl_table tbl w) \<subseteq> dom (wl_table tbl (fst (whitelist_add api os w h p y)))"
  using whitelist_add_table [of api tbl os w h p y] by (cases "whitelist_add api os w h p y") auto

lemma add_dom_step:
  "sqlite_spec api tbl \<Longrightarrow>
   scan_step_ok (\<lambda>w w'. dom (wl_table tbl w) \<subseteq> dom (wl_table tbl w') \<and> same_handles w w') sha api os p"
  using whitelist_add_dom whitelist_add_frame unfolding scan_step_ok_def by blast

lemma grows_trans:
  "dom (wl_table tbl u) \<subseteq> dom (wl_table tbl v) \<and> same_handles u v \<Longrightarrow>
   dom (wl_table tbl v) \<subseteq> dom (wl_table tbl w) \<and> same_handles v w \<Longrightarrow>
   dom (wl_table tbl u) \<subseteq> dom (wl_table tbl w) \<and> same_handles u w"
  using same_handles_trans by blast

lemma scan_grows:
  assumes "sqlite_spec api tbl"
    and "whitelist_scan_directory fuel sha api os recursive dir w = Some (w', n)"
  shows "dom (wl_table tbl w) \<subseteq> dom (wl_table tbl w') \<and> same_handles w w'"
  by (rule scan_relates [OF _ _ _ assms(2)])
    (simp, erule (1) grows_trans, rule add_dom_step [OF assms(1)])

lemma scan_entries_append:
  "scan_entries scan sha api os dir recursive (xs @ ys) w count =
   (case scan_entries scan sha api os dir recursive xs w count of
      None \<Rightarrow> None
    | Some (v, k) \<Rightarrow> scan_entries scan sha api os dir recursive ys v k)"
  by (induction xs arbitrary: w count) (auto simp: Let_def split: option.splits prod.splits)

text \<open>What the walk adds for one name of a directory stays until the end of its loop.\<close>

lemma scan_entries_one:
  assumes "os_opendir os dir = Some all" and all: "all = xs @ name # ys"
    and ent: "scan_entries (whitelist_scan_directory fuel sha api os recursive) sha api os dir
      recursive all w 0 = Some (w', n)"
    and spec: "sqlite_spec api tbl"
    and one: "\<And>v k v' k'. same_handles w v \<Longrightarrow>
      scan_entries (whitelist_scan_directory fuel sha api os recursive) sha api os dir recursive
        [name] v k = Some (v', k') \<Longrightarrow> h \<in> dom (wl_table tbl v')"
  shows "h \<in> dom (wl_table tbl w')"
proof -
  let ?R = "\<lambda>w w'. dom (wl_table tbl w) \<subseteq> dom (wl_table tbl w') \<and> same_handles w w'"
  let ?scan = "whitelist_scan_directory fuel sha api os recursive"
  have rel: "scan_entries ?scan sha api os dir recursive names v k = Some (v', k') \<Longrightarrow> ?R v v'"
    if "set names \<subseteq> set all" for names v k v' k'
    by (erule scan_entries_relates [OF assms(1) that, of recursive ?scan ?R, rotated -1],
        erule scan_grows [OF spec], simp, erule (1) grows_trans, rule add_dom_step [OF spec])
  have "scan_entries ?scan sha api os dir recursive (xs @ [name] @ ys) w 0 = Some (w', n)"
    using ent all by simp
  then obtain u i v j where u: "scan_entries ?scan sha api os dir recursive xs w 0 = Some (u, i)"
    and v: "scan_entries ?scan sha api os dir recursive [name] u i = Some (v, j)"
    and w': "scan_entries ?scan sha api os dir recursive ys v j = Some (w', n)"
    unfolding scan_entries_append by (auto simp del: scan_entries.simps split: option.splits)
  have "same_handles w u" using rel [OF _ u] all by auto
  then have "h \<in> dom (wl_table tbl v)" using one v by blast
  then show ?thesis using rel [OF _ w'] all by auto
qed

lemma scan_finds:
  assumes spec: "sqlite_spec api tbl" and live: "sqlite_never_fails api"
    and ex: "os_lstat os p = Some m" "is_executable_file os p m"
    and h: "hash_file sha (os_open os) p = Some h"
  shows "under os recursive dir p \<Longrightarrow> whitelist_ready w \<Longrightarrow>
    whitelist_scan_directory fuel sha api os recursive dir w = Some (w', n) \<Longrightarrow>
    h \<in> dom (wl_table tbl w')"
proof (induction fuel arbitrary: dir w w' n)
  case 0
  then show ?case by simp
next
  case (Suc fuel)
  let ?scan = "whitelist_scan_directory fuel sha api os recursive"
  from Suc.prems(1) show ?case
  proof cases
    case (entry all name m')
    then obtain xs ys where all: "all = xs @ name # ys" by (meson split_list)
    have ent: "scan_entries ?scan sha api os dir recursive all w 0 = Some (w', n)"
      using Suc.prems(3) entry(2) by simp
    show ?thesis
    proof (rule scan_entries_one [OF entry(2) all ent spec])
      fix v k v' k'
      assume sh: "same_handles w v"
        and one: "scan_entries ?scan sha api os dir recursive [name] v k = Some (v', k')"
      have "snd (whitelist_add api os v h p 1) = 0"
        using whitelist_add_succeeds [OF live] same_handles_ready [OF sh] Suc.prems(2) by blast
      then have "h \<in> dom (wl_table tbl (fst (whitelist_add api os v h p 1)))"
        using whitelist_add_table [OF spec, of os v h p 1] by (cases "whitelist_add api os v h p 1") auto
      then show "h \<in> dom (wl_table tbl v')"
        using one entry ex h by (auto simp: Let_def split: prod.splits)
    qed
  next
    case (below all name m')
    then obtain xs ys where all: "all = xs @ name # ys" by (meson split_list)
    have ent: "scan_entries ?scan sha api os dir recursive all w 0 = Some (w', n)"
      using Suc.prems(3) below(1) by simp
    show ?thesis
    proof (rule scan_entries_one [OF below(1) all ent spec])
      fix v k v' k'
      assume sh: "same_handles w v"
        and "scan_entries ?scan sha api os dir recursive [name] v k = Some (v', k')"
      then obtain i where "?scan (child_path dir name) v = Some (v', i)"
        using below by (auto simp: Let_def split: option.splits)
      then show "h \<in> dom (wl_table tbl v')"
        using Suc.IH [OF below(8)] same_handles_ready [OF sh] Suc.prems(2) by blast
    qed
  qed
qed

section \<open>How deep the recursion goes\<close>

text \<open>No directory has a path so long that the path of an entry would be cut.\<close>

definition paths_fit :: "os \<Rightarrow> bool" where
  "paths_fit os \<longleftrightarrow> (\<forall>p. 4094 \<le> length p \<longrightarrow> os_opendir os p = None)"

lemma child_path_longer: "length dir < 4094 \<Longrightarrow> length dir < length (child_path dir name)"
  by (simp add: child_path_def min_def)

lemma scan_entries_total:
  assumes "\<And>name v. \<exists>r. scan (child_path dir name) v = Some r"
  shows "\<exists>r. scan_entries scan sha api os dir recursive names w count = Some r"
proof (induction names arbitrary: w count)
  case Nil
  then show ?case by simp
next
  case (Cons name names)
  obtain v k where "scan (child_path dir name) w = Some (v, k)" using assms by fastforce
  then show ?case using Cons.IH
    by (auto simp: Let_def split: option.splits prod.splits)
qed

lemma scan_total:
  "paths_fit os \<Longrightarrow> 4094 - length dir < fuel \<Longrightarrow>
   \<exists>r. whitelist_scan_directory fuel sha api os recursive dir w = Some r"
proof (induction fuel arbitrary: dir w)
  case 0
  then show ?case by simp
next
  case (Suc fuel)
  show ?case
  proof (cases "os_opendir os dir")
    case None
    then show ?thesis by simp
  next
    case (Some names)
    then have len: "length dir < 4094"
      using Suc.prems(1) by (metis not_less option.distinct(1) paths_fit_def)
    have "\<exists>r. whitelist_scan_directory fuel sha api os recursive (child_path dir name) v = Some r"
      for name v
      using Suc.IH [OF Suc.prems(1)] child_path_longer [OF len, of name] Suc.prems(2) len
      by (metis (no_types, lifting) diff_less_mono2 less_Suc_eq_le less_le_trans)
    then show ?thesis
      using scan_entries_total [of "whitelist_scan_directory fuel sha api os recursive" dir] Some
      by simp
  qed
qed

lemma scan_ends:
  assumes "paths_fit os" "4095 \<le> fuel"
  obtains w' n where "whitelist_scan_directory fuel sha api os recursive dir w = Some (w', n)"
proof -
  have "4094 - length dir < fuel" using assms(2) by arith
  then obtain r where "whitelist_scan_directory fuel sha api os recursive dir w = Some r"
    using scan_total [OF assms(1), where dir = dir and fuel = fuel and sha = sha and api = api and w = w
        and recursive = recursive] by blast
  then show thesis using that by (cases r) auto
qed

lemma child_path_cut: "length dir = 4095 \<Longrightarrow> child_path dir name = dir"
  by (simp add: child_path_def)

lemma scan_entries_None:
  assumes "\<And>v. scan dir v = None" and "length dir = 4095"
    and "os_lstat os dir = Some m" "S_ISDIR m" "recursive \<noteq> 0"
    and "name \<in> set names" "name \<noteq> ''.''" "name \<noteq> ''..''"
  shows "scan_entries scan sha api os dir recursive names w count = None"
  using assms(6)
proof (induction names arbitrary: w count)
  case Nil
  then show ?case by simp
next
  case (Cons x names)
  then show ?case using assms(1-5,7,8) by (auto simp: Let_def child_path_cut)
qed

lemma scan_diverges:
  assumes "length dir = 4095" and "os_opendir os dir = Some names"
    and "name \<in> set names" "name \<noteq> ''.''" "name \<noteq> ''..''"
    and "os_lstat os dir = Some m" "S_ISDIR m" "recursive \<noteq> 0"
  shows "whitelist_scan_directory fuel sha api os recursive dir w = None"
proof (induction fuel arbitrary: w)
  case 0
  then show ?case by simp
next
  case (Suc fuel)
  then show ?case using assms by (simp add: scan_entries_None)
qed

end
