(* ===== verification/Config.thy ===== *)
theory Config
  imports Scan
begin

text \<open>
  The configuration part of \<open>src/src/daemon/main.c\<close>: \<open>g_config\<close> with its defaults, the
  parser of \<open>lexec.conf\<close>, the command line, the exclusion list and the initial scan.
  \<open>getopt_long\<close>'s decoding of the argument vector is the C library's: the command line is
  the list of options it returns, in order. Where the source multiplies a timeout so that
  the product leaves the range of \<open>int\<close>, which C leaves undefined, a result is \<open>Undef\<close>.
\<close>

section \<open>Configuration\<close>

record config =
  foreground :: int
  do_scan :: int
  learning_mode :: int
  log_to_syslog :: int
  gui_timeout_ms :: int
  default_deny :: int
  monitor_shared_libs :: int
  db_path :: string
  config_path :: string
  socket_path :: string
  exclude_paths :: string

definition default_config :: config where
  "default_config = \<lparr>foreground = 0, do_scan = 0, learning_mode = 0, log_to_syslog = 1,
     gui_timeout_ms = 30000, default_deny = 1, monitor_shared_libs = 1,
     db_path = ''/var/lib/lexec/whitelist.db'', config_path = ''/etc/lexec/lexec.conf'',
     socket_path = ''/var/run/lexec/lexec.sock'', exclude_paths = ''/proc,/sys,/dev,/run''\<rparr>"

definition SCAN_DIRS :: "string list" where
  "SCAN_DIRS = [''/bin'', ''/sbin'', ''/usr/bin'', ''/usr/sbin'', ''/usr/local/bin'',
     ''/usr/local/sbin'', ''/lib'', ''/lib64'', ''/usr/lib'', ''/usr/lib64'', ''/opt'']"

definition MONITOR_MOUNTS :: "string list" where
  "MONITOR_MOUNTS = [''/'']"

definition newline :: char where
  "newline = CHR 0x0A"

section \<open>The configuration file\<close>

text \<open>\<open>strncpy (field, v, PATH_MAX - 1)\<close> and the same for the 4096 bytes of exclusions.\<close>

definition copy_field :: "string \<Rightarrow> string" where
  "copy_field v = take 4095 v"

definition set_timeout :: "string \<Rightarrow> config \<Rightarrow> config outcome" where
  "set_timeout v g =
     (case c_mul (atoi v) 1000 of
        None \<Rightarrow> Undef
      | Some ms \<Rightarrow> Ret (g\<lparr>gui_timeout_ms := ms\<rparr>))"

definition apply_setting :: "string \<Rightarrow> string \<Rightarrow> config \<Rightarrow> config outcome" where
  "apply_setting key v g =
     (if key = ''database_path'' then Ret (g\<lparr>db_path := copy_field v\<rparr>)
      else if key = ''socket_path'' then Ret (g\<lparr>socket_path := copy_field v\<rparr>)
      else if key = ''learning_mode'' then Ret (g\<lparr>learning_mode := atoi v\<rparr>)
      else if key = ''gui_timeout'' then set_timeout v g
      else if key = ''default_deny'' then Ret (g\<lparr>default_deny := atoi v\<rparr>)
      else if key = ''monitor_shared_libs'' then Ret (g\<lparr>monitor_shared_libs := atoi v\<rparr>)
      else if key = ''exclude_paths'' then Ret (g\<lparr>exclude_paths := copy_field v\<rparr>)
      else if key = ''log_to_syslog'' then Ret (g\<lparr>log_to_syslog := atoi v\<rparr>)
      else Ret g)"

text \<open>
  \<open>sscanf (p, "%255[^= ] = %767[^\<newline>]", key, value)\<close>: the two strings where both
  conversions succeed.
\<close>

definition scan_setting :: "string \<Rightarrow> (string \<times> string) option" where
  "scan_setting p =
     (let key = take 255 (takeWhile (\<lambda>c. c \<noteq> CHR ''='' \<and> c \<noteq> CHR '' '') p);
          r1 = dropWhile isspace (drop (length key) p) in
      if key = [] then None
      else case r1 of
        [] \<Rightarrow> None
      | c # r2 \<Rightarrow>
          if c \<noteq> CHR ''='' then None
          else let v = take 767 (takeWhile (\<lambda>c. c \<noteq> newline) (dropWhile isspace r2)) in
               if v = [] then None else Some (key, v))"

definition is_blank :: "char \<Rightarrow> bool" where
  "is_blank c \<longleftrightarrow> c = CHR '' '' \<or> c = CHR 0x09"

definition parse_config_line :: "string \<Rightarrow> config \<Rightarrow> config outcome" where
  "parse_config_line line g =
     (let p = dropWhile is_blank (takeWhile (\<lambda>c. c \<noteq> CHR 0x00) line) in
      case p of
        [] \<Rightarrow> Ret g
      | c # _ \<Rightarrow>
          if c = CHR ''#'' \<or> c = newline then Ret g
          else (case scan_setting (takeWhile (\<lambda>c. c \<noteq> newline) p) of
                  None \<Rightarrow> Ret g
                | Some (key, v) \<Rightarrow> apply_setting key (dropWhile is_blank v) g))"

text \<open>One call of \<open>fgets (line, 1024, f)\<close>: through the newline, at most 1023 bytes.\<close>

definition fgets_line :: "string \<Rightarrow> string" where
  "fgets_line s =
     (let p = takeWhile (\<lambda>c. c \<noteq> newline) s in
      if length p < 1023 then take (Suc (length p)) s else take 1023 s)"

function parse_lines :: "string \<Rightarrow> config \<Rightarrow> config outcome" where
  "parse_lines s g =
     (if s = [] then Ret g
      else (let line = fgets_line s in
            bind_outcome (parse_config_line line g) (parse_lines (drop (length line) s))))"
  by pat_completeness auto
termination
proof (relation "measure (\<lambda>(s, g). length s)")
  show "wf (measure (\<lambda>(s :: string, g :: config). length s))" by simp
next
  fix s :: string and g x :: config and y
  assume "s \<noteq> []" "y = fgets_line s"
  then have "0 < length y" "length y \<le> length s"
    by (auto simp: fgets_line_def Let_def split: if_splits)
  then have "length s - length y < length s" by linarith
  then show "((drop (length y) s, x), (s, g)) \<in> measure (\<lambda>(s, g). length s)"
    by simp
qed

declare parse_lines.simps [simp del]

datatype file_open = Opened string | No_entry | Open_error

definition parse_config_file :: "file_open \<Rightarrow> config \<Rightarrow> (config \<times> int) outcome" where
  "parse_config_file f g =
     (case f of
        No_entry \<Rightarrow> Ret (g, 0)
      | Open_error \<Rightarrow> Ret (g, - 1)
      | Opened s \<Rightarrow> bind_outcome (parse_lines s g) (\<lambda>g'. Ret (g', 0)))"

section \<open>The command line\<close>

datatype option_arg =
  Opt_scan | Opt_learn | Opt_foreground | Opt_config string | Opt_db string | Opt_timeout string
| Opt_help | Opt_unknown

datatype args_result = Args_ok config | Args_exit int

fun parse_args :: "option_arg list \<Rightarrow> config \<Rightarrow> args_result outcome" where
  "parse_args [] g = Ret (Args_ok g)"
| "parse_args (Opt_scan # os) g = parse_args os (g\<lparr>do_scan := 1\<rparr>)"
| "parse_args (Opt_learn # os) g = parse_args os (g\<lparr>learning_mode := 1\<rparr>)"
| "parse_args (Opt_foreground # os) g = parse_args os (g\<lparr>foreground := 1\<rparr>)"
| "parse_args (Opt_config a # os) g = parse_args os (g\<lparr>config_path := copy_field a\<rparr>)"
| "parse_args (Opt_db a # os) g = parse_args os (g\<lparr>db_path := copy_field a\<rparr>)"
| "parse_args (Opt_timeout a # os) g = bind_outcome (set_timeout a g) (parse_args os)"
| "parse_args (Opt_help # os) g = Ret (Args_exit 0)"
| "parse_args (Opt_unknown # os) g = Ret (Args_exit 1)"

text \<open>
  The first lines of \<open>main\<close>: the command line, the file it names, the command line again.
  \<open>read_file\<close> is \<open>fopen\<close> on a path; what \<open>parse_config_file\<close> returns is ignored.
\<close>

definition load_config :: "(string \<Rightarrow> file_open) \<Rightarrow> option_arg list \<Rightarrow> config \<Rightarrow> args_result outcome" where
  "load_config read_file opts g =
     bind_outcome (parse_args opts g) (\<lambda>r.
       case r of
         Args_exit n \<Rightarrow> Ret (Args_exit n)
       | Args_ok g1 \<Rightarrow>
           bind_outcome (parse_config_file (read_file (config_path g1)) g1)
             (\<lambda>(g2, _). parse_args opts g2))"

section \<open>Excluded paths\<close>

function trim_end :: "string \<Rightarrow> string" where
  "trim_end t = (if 1 < length t \<and> last t = CHR '' '' then trim_end (butlast t) else t)"
  by pat_completeness auto
termination by (relation "measure length") auto

declare trim_end.simps [simp del]

definition trim_token :: "string \<Rightarrow> string" where
  "trim_token t = trim_end (dropWhile (\<lambda>c. c = CHR '' '') t)"

function excluded_loop :: "string \<Rightarrow> string \<Rightarrow> bool" where
  "excluded_loop path s =
     (case strtok_r (CHR '','') s of
        None \<Rightarrow> False
      | Some (tok, rest) \<Rightarrow>
          (let token = trim_token tok in
           if strncmp_eq path token (length token) then True else excluded_loop path rest))"
  by pat_completeness auto
termination by (relation "measure (\<lambda>(path, s). length s)") (auto dest: strtok_r_shorter)

declare excluded_loop.simps [simp del]

definition is_path_excluded :: "config \<Rightarrow> string \<Rightarrow> bool" where
  "is_path_excluded g path = excluded_loop path (take 4095 (exclude_paths g))"

definition daemon_get_gui_timeout :: "config \<Rightarrow> int" where
  "daemon_get_gui_timeout g = gui_timeout_ms g"

definition daemon_get_default_deny :: "config \<Rightarrow> bool" where
  "daemon_get_default_deny g \<longleftrightarrow> default_deny g \<noteq> 0"

definition daemon_is_learning_mode :: "config \<Rightarrow> bool" where
  "daemon_is_learning_mode g \<longleftrightarrow> learning_mode g \<noteq> 0"

section \<open>The initial scan\<close>

fun scan_all ::
  "nat \<Rightarrow> 'c sha256_api \<Rightarrow> 'db sqlite \<Rightarrow> os \<Rightarrow> config \<Rightarrow> string list \<Rightarrow> 'db whitelist \<Rightarrow> int \<Rightarrow>
   ('db whitelist \<times> int) option" where
  "scan_all fuel sha api os g [] w n = Some (w, n)"
| "scan_all fuel sha api os g (dir # dirs) w n =
     (if is_path_excluded g dir then scan_all fuel sha api os g dirs w n
      else (case whitelist_scan_directory fuel sha api os 1 dir w of
              None \<Rightarrow> None
            | Some (w', count) \<Rightarrow> scan_all fuel sha api os g dirs w' (n + count)))"

definition perform_initial_scan ::
  "nat \<Rightarrow> 'c sha256_api \<Rightarrow> 'db sqlite \<Rightarrow> os \<Rightarrow> config \<Rightarrow> 'db whitelist \<Rightarrow>
   ('db whitelist \<times> int) option" where
  "perform_initial_scan fuel sha api os g w =
     (case scan_all fuel sha api os g SCAN_DIRS w 0 of
        None \<Rightarrow> None
      | Some (w', n) \<Rightarrow> Some (fst (whitelist_count api w'), n))"

section \<open>Exclusions\<close>

text \<open>The documented reading of the list: its comma-separated, non-empty, trimmed fields.\<close>

fun comma_fields :: "string \<Rightarrow> string list" where
  "comma_fields [] = [[]]"
| "comma_fields (c # cs) =
     (if c = CHR '','' then [] # comma_fields cs
      else (case comma_fields cs of [] \<Rightarrow> [[c]] | f # fs \<Rightarrow> (c # f) # fs))"

definition strip_spaces :: "string \<Rightarrow> string" where
  "strip_spaces t =
     rev (dropWhile (\<lambda>c. c = CHR '' '') (rev (dropWhile (\<lambda>c. c = CHR '' '') t)))"

definition exclusion_prefixes :: "config \<Rightarrow> string list" where
  "exclusion_prefixes g =
     map strip_spaces (filter (\<lambda>f. f \<noteq> []) (comma_fields (take 4095 (exclude_paths g))))"

lemma comma_fields_no_comma: "CHR '','' \<notin> set s \<Longrightarrow> comma_fields s = [s]"
  by (induction s) auto

lemma comma_fields_split:
  "CHR '','' \<notin> set a \<Longrightarrow> comma_fields (a @ CHR '','' # b) = a # comma_fields b"
  by (induction a) auto

lemma trim_end_strip:
  "t = [] \<or> hd t \<noteq> CHR '' '' \<Longrightarrow>
   trim_end t = rev (dropWhile (\<lambda>c. c = CHR '' '') (rev t))"
proof (induction t rule: trim_end.induct)
  case (1 t)
  show ?case
  proof (cases "1 < length t \<and> last t = CHR '' ''")
    case True
    then obtain u where t: "t = u @ [CHR '' '']" and u: "u \<noteq> []"
      by (metis append_butlast_last_id length_butlast length_greater_0_conv list.size(3)
          not_less_zero zero_less_diff)
    have "hd u \<noteq> CHR '' ''" using "1.prems" t u by (cases u) auto
    then have "trim_end u = rev (dropWhile (\<lambda>c. c = CHR '' '') (rev u))"
      using "1.IH" [OF True] t by simp
    moreover have "trim_end t = trim_end u" using True t by (subst trim_end.simps) simp
    ultimately show ?thesis using t by simp
  next
    case False
    then have "t = [] \<or> last t \<noteq> CHR '' ''"
      using "1.prems" by (cases t) (auto split: if_splits)
    then have "dropWhile (\<lambda>c. c = CHR '' '') (rev t) = rev t"
      by (cases t rule: rev_cases) auto
    moreover have "trim_end t = t" using False by (subst trim_end.simps) (simp only: if_False)
    ultimately show ?thesis by simp
  qed
qed

lemma trim_token_strip: "trim_token t = strip_spaces t"
proof -
  let ?u = "dropWhile (\<lambda>c. c = CHR '' '') t"
  have "?u = [] \<or> hd ?u \<noteq> CHR '' ''"
    using hd_dropWhile [of "\<lambda>c. c = CHR '' ''" t] by blast
  then show ?thesis by (simp add: trim_token_def strip_spaces_def trim_end_strip)
qed

lemma comma_fields_skip:
  "filter (\<lambda>f. f \<noteq> []) (comma_fields (dropWhile (\<lambda>c. c = CHR '','') s)) =
   filter (\<lambda>f. f \<noteq> []) (comma_fields s)"
  by (induction s) auto

lemma comma_fields_strtok:
  "filter (\<lambda>f. f \<noteq> []) (comma_fields s) =
   (case strtok_r (CHR '','') s of
      None \<Rightarrow> []
    | Some (tok, rest) \<Rightarrow> tok # filter (\<lambda>f. f \<noteq> []) (comma_fields rest))"
proof -
  define t where "t = dropWhile (\<lambda>c. c = CHR '','') s"
  define a where "a = takeWhile (\<lambda>c. c \<noteq> CHR '','') t"
  define b where "b = dropWhile (\<lambda>c. c \<noteq> CHR '','') t"
  have f: "filter (\<lambda>f. f \<noteq> []) (comma_fields s) = filter (\<lambda>f. f \<noteq> []) (comma_fields t)"
    unfolding t_def by (simp only: comma_fields_skip)
  have tok: "strtok_r (CHR '','') s = (if t = [] then None else Some (a, drop 1 b))"
    by (simp only: strtok_r_def Let_def t_def a_def b_def)
  show ?thesis
  proof (cases "t = []")
    case True
    then show ?thesis unfolding f tok by simp
  next
    case False
    have "hd t \<noteq> CHR '',''" using hd_dropWhile [of "\<lambda>c. c = CHR '',''" s] False unfolding t_def by blast
    then have ane: "a \<noteq> []" using False unfolding a_def by (cases t) auto
    have nc: "CHR '','' \<notin> set a" unfolding a_def by (auto dest: set_takeWhileD)
    have ab: "t = a @ b" unfolding a_def b_def by simp
    have "comma_fields t = a # (if b = [] then [] else comma_fields (drop 1 b))"
    proof (cases b)
      case Nil
      then show ?thesis using ab comma_fields_no_comma [OF nc] by simp
    next
      case (Cons x xs)
      then have "b \<noteq> []" by simp
      then have "\<not> hd b \<noteq> CHR '',''"
        unfolding b_def by (rule hd_dropWhile [of "\<lambda>c. c \<noteq> CHR '',''" t])
      then have "x = CHR '',''" using Cons by simp
      then show ?thesis using Cons ab comma_fields_split [OF nc, of xs] by simp
    qed
    then show ?thesis unfolding f tok using False ane by (cases b) simp_all
  qed
qed

lemma excluded_loop_iff:
  "excluded_loop path s \<longleftrightarrow>
   (\<exists>t \<in> set (filter (\<lambda>f. f \<noteq> []) (comma_fields s)). prefix (strip_spaces t) path)"
proof (induction path s rule: excluded_loop.induct)
  case (1 path s)
  show ?case
  proof (cases "strtok_r (CHR '','') s")
    case None
    then show ?thesis by (simp add: excluded_loop.simps [of path s] comma_fields_strtok [of s])
  next
    case (Some r)
    then obtain tok rest where r: "strtok_r (CHR '','') s = Some (tok, rest)" by (cases r) auto
    show ?thesis
    proof (cases "prefix (strip_spaces tok) path")
      case True
      then show ?thesis using r
        by (simp add: excluded_loop.simps [of path s] comma_fields_strtok [of s]
            strncmp_eq_prefix trim_token_strip)
    next
      case False
      then have "excluded_loop path s = excluded_loop path rest"
        using r by (simp add: excluded_loop.simps [of path s] strncmp_eq_prefix trim_token_strip)
      also have "\<dots> \<longleftrightarrow>
          (\<exists>t \<in> set (filter (\<lambda>f. f \<noteq> []) (comma_fields rest)). prefix (strip_spaces t) path)"
        using "1.IH" r False by (simp add: strncmp_eq_prefix trim_token_strip)
      finally show ?thesis using r False by (simp only: comma_fields_strtok [of s]) simp
    qed
  qed
qed

lemma is_path_excluded_iff:
  "is_path_excluded g path \<longleftrightarrow> (\<exists>t \<in> set (exclusion_prefixes g). prefix t path)"
  by (auto simp: is_path_excluded_def exclusion_prefixes_def excluded_loop_iff)

section \<open>What the command line and the file may set\<close>

definition db_args :: "option_arg list \<Rightarrow> string list" where
  "db_args opts = concat (map (\<lambda>x. case x of Opt_db a \<Rightarrow> [a] | _ \<Rightarrow> []) opts)"

definition timeout_args :: "option_arg list \<Rightarrow> string list" where
  "timeout_args opts = concat (map (\<lambda>x. case x of Opt_timeout a \<Rightarrow> [a] | _ \<Rightarrow> []) opts)"

lemma arg_lists [simp]:
  "db_args [] = []" "timeout_args [] = []"
  "db_args (x # opts) = (case x of Opt_db a \<Rightarrow> [a] | _ \<Rightarrow> []) @ db_args opts"
  "timeout_args (x # opts) = (case x of Opt_timeout a \<Rightarrow> [a] | _ \<Rightarrow> []) @ timeout_args opts"
  by (simp_all add: db_args_def timeout_args_def)

lemma set_timeout_Ret:
  "set_timeout v g = Ret g' \<longleftrightarrow> c_int_ok (atoi v * 1000) \<and> g' = g\<lparr>gui_timeout_ms := atoi v * 1000\<rparr>"
  by (auto simp: set_timeout_def clib_simps split: option.splits simp: c_mul_def)

lemma set_timeout_Undef: "set_timeout v g = Undef \<longleftrightarrow> \<not> c_int_ok (atoi v * 1000)"
  by (auto simp: set_timeout_def c_mul_def)

lemma parse_args_sets:
  "parse_args opts g = Ret (Args_ok g') \<Longrightarrow>
   do_scan g' = (if Opt_scan \<in> set opts then 1 else do_scan g) \<and>
   learning_mode g' = (if Opt_learn \<in> set opts then 1 else learning_mode g) \<and>
   foreground g' = (if Opt_foreground \<in> set opts then 1 else foreground g) \<and>
   db_path g' = (if db_args opts = [] then db_path g else copy_field (last (db_args opts))) \<and>
   gui_timeout_ms g' = (if timeout_args opts = [] then gui_timeout_ms g
                        else atoi (last (timeout_args opts)) * 1000)"
proof (induction opts arbitrary: g)
  case Nil
  then show ?case by simp
next
  case (Cons x opts)
  show ?case
  proof (cases x)
    case (Opt_timeout a)
    then show ?thesis using Cons by (auto simp: bind_outcome_Ret_iff set_timeout_Ret)
  qed (use Cons in \<open>fastforce\<close>)+
qed

lemma parse_args_same_settings:
  "parse_args opts g = Ret (Args_ok g') \<Longrightarrow>
   exclude_paths g' = exclude_paths g \<and> default_deny g' = default_deny g \<and>
   monitor_shared_libs g' = monitor_shared_libs g \<and> log_to_syslog g' = log_to_syslog g \<and>
   socket_path g' = socket_path g"
proof (induction opts arbitrary: g)
  case Nil
  then show ?case by simp
next
  case (Cons x opts)
  show ?case
  proof (cases x)
    case (Opt_timeout a)
    then show ?thesis using Cons by (auto simp: bind_outcome_Ret_iff set_timeout_Ret)
  qed (use Cons in \<open>fastforce\<close>)+
qed

text \<open>What the file cannot set.\<close>

definition same_switches :: "config \<Rightarrow> config \<Rightarrow> bool" where
  "same_switches g g' \<longleftrightarrow> do_scan g' = do_scan g \<and> foreground g' = foreground g \<and>
     config_path g' = config_path g"

lemma same_switches_refl [simp]: "same_switches g g"
  by (simp add: same_switches_def)

lemma apply_setting_frame: "apply_setting key v g = Ret g' \<Longrightarrow> same_switches g g'"
  by (auto simp: apply_setting_def same_switches_def set_timeout_Ret split: if_splits)

lemma parse_config_line_frame: "parse_config_line line g = Ret g' \<Longrightarrow> same_switches g g'"
  by (auto simp: parse_config_line_def Let_def dest: apply_setting_frame
      split: list.splits if_splits option.splits)

lemma parse_lines_frame: "parse_lines s g = Ret g' \<Longrightarrow> same_switches g g'"
proof (induction s g rule: parse_lines.induct)
  case (1 s g)
  show ?case
  proof (cases "s = []")
    case True
    then have "parse_lines s g = Ret g" by (subst parse_lines.simps) simp
    with "1.prems" show ?thesis by simp
  next
    case False
    with "1.prems" obtain h where h: "parse_config_line (fgets_line s) g = Ret h"
      and r: "parse_lines (drop (length (fgets_line s)) s) h = Ret g'"
      by (auto simp: parse_lines.simps [of s g] Let_def bind_outcome_Ret_iff)
    have "same_switches h g'" using "1.IH" [OF False refl] r by blast
    then show ?thesis using parse_config_line_frame [OF h] by (simp add: same_switches_def)
  qed
qed

lemma parse_config_file_frame: "parse_config_file f g = Ret (g', rc) \<Longrightarrow> same_switches g g'"
  by (auto simp: parse_config_file_def bind_outcome_Ret_iff
      dest: parse_lines_frame split: file_open.splits)

lemma load_config_cases:
  assumes "load_config read_file opts g = Ret (Args_ok g')"
  obtains g1 g2 rc where "parse_args opts g = Ret (Args_ok g1)"
    "parse_config_file (read_file (config_path g1)) g1 = Ret (g2, rc)"
    "parse_args opts g2 = Ret (Args_ok g')"
proof -
  from assms obtain r where r: "parse_args opts g = Ret r"
    and k: "(case r of Args_exit n \<Rightarrow> Ret (Args_exit n)
      | Args_ok g1 \<Rightarrow> bind_outcome (parse_config_file (read_file (config_path g1)) g1)
          (\<lambda>(g2, _). parse_args opts g2)) = Ret (Args_ok g')"
    by (auto simp: load_config_def bind_outcome_Ret_iff)
  then show thesis
    using that by (cases r) (auto simp: bind_outcome_Ret_iff)
qed

end
