(* ===== verification/Ipc.thy ===== *)
theory Ipc
  imports Lexec_Prelude
begin

text \<open>
  \<open>src/src/common/protocol.h\<close> and \<open>src/src/daemon/ipc_server.c\<close>: the messages between
  daemon and client, and the daemon's side of the conversation. The table of pending requests
  is its 64 slots and the count of those in use; a requester keeps the index of its slot, as
  the source keeps a pointer. Every region the source runs under a lock is one function here:
  \<open>ipc_env_step\<close> is what the accept thread and the reader threads do,
  \<open>ipc_request_permission\<close> one request with the events that happen meanwhile.
\<close>

section \<open>Messages\<close>

definition MSG_ALLOW_ONCE :: int where "MSG_ALLOW_ONCE = 100"
definition MSG_ALLOW_ALWAYS :: int where "MSG_ALLOW_ALWAYS = 101"
definition MSG_DENY :: int where "MSG_DENY = 102"

definition LEXEC_RESPONSE_ALLOW_ONCE :: int where "LEXEC_RESPONSE_ALLOW_ONCE = 1"
definition LEXEC_RESPONSE_ALLOW_ALWAYS :: int where "LEXEC_RESPONSE_ALLOW_ALWAYS = 2"
definition LEXEC_RESPONSE_DENY :: int where "LEXEC_RESPONSE_DENY = 3"
definition LEXEC_RESPONSE_TIMEOUT :: int where "LEXEC_RESPONSE_TIMEOUT = - 1"
definition LEXEC_RESPONSE_NO_CLIENT :: int where "LEXEC_RESPONSE_NO_CLIENT = - 2"

lemmas message_codes = MSG_ALLOW_ONCE_def MSG_ALLOW_ALWAYS_def MSG_DENY_def
  LEXEC_RESPONSE_ALLOW_ONCE_def LEXEC_RESPONSE_ALLOW_ALWAYS_def LEXEC_RESPONSE_DENY_def
  LEXEC_RESPONSE_TIMEOUT_def LEXEC_RESPONSE_NO_CLIENT_def

record exec_request =
  rq_request_id :: u32
  rq_pid :: int
  rq_uid :: u32
  rq_path :: string
  rq_hash :: string
  rq_cmdline :: string
  rq_parent_path :: string
  rq_is_shared_lib :: u8

record exec_response =
  rs_request_id :: u32
  rs_response :: int

section \<open>State of the server\<close>

record pending_request =
  pd_request_id :: u32
  pd_response :: int
  pd_completed :: bool

definition MAX_PENDING_REQUESTS :: nat where "MAX_PENDING_REQUESTS = 64"

text \<open>\<open>sv_closed\<close> and \<open>sv_sent\<close> record the calls of \<open>close\<close> on clients and the requests written.\<close>

record ipc_server =
  sv_server_fd :: int
  sv_client_fd :: int
  sv_running :: bool
  sv_next_request_id :: u32
  sv_pending :: "pending_request list"
  sv_pending_count :: nat
  sv_closed :: "int list"
  sv_sent :: "(int \<times> exec_request) list"

definition ipc_initial :: ipc_server where
  "ipc_initial = \<lparr>sv_server_fd = - 1, sv_client_fd = - 1, sv_running = False, sv_next_request_id = 1,
     sv_pending = replicate MAX_PENDING_REQUESTS
       \<lparr>pd_request_id = 0, pd_response = 0, pd_completed = False\<rparr>,
     sv_pending_count = 0, sv_closed = [], sv_sent = []\<rparr>"

text \<open>
  Starting and stopping; what \<open>socket\<close>, \<open>bind\<close>, \<open>listen\<close> and \<open>pthread_create\<close> return is
  given. The results of \<open>unlink\<close>, \<open>mkdir\<close> and \<open>chmod\<close> are ignored by the source.
\<close>

record ipc_sys =
  ip_socket :: int
  ip_bind :: int
  ip_listen :: int
  ip_thread :: int

definition ipc_server_init :: "ipc_sys \<Rightarrow> ipc_server \<Rightarrow> ipc_server \<times> int" where
  "ipc_server_init sys sv =
     (let sv1 = sv\<lparr>sv_server_fd := ip_socket sys\<rparr>;
          close_server = (\<lambda>s. s\<lparr>sv_closed := sv_closed s @ [sv_server_fd s]\<rparr>) in
      if sv_server_fd sv1 = - 1 then (sv1, - 1)
      else if ip_bind sys = - 1 then (close_server sv1, - 1)
      else if ip_listen sys = - 1 then (close_server sv1, - 1)
      else let sv2 = sv1\<lparr>sv_running := True\<rparr> in
      if ip_thread sys \<noteq> 0 then (close_server sv2, - 1)
      else (sv2, 0))"

definition ipc_server_shutdown :: "ipc_server \<Rightarrow> ipc_server" where
  "ipc_server_shutdown sv =
     (let sv1 = sv\<lparr>sv_running := False\<rparr>;
          sv2 = (if 0 \<le> sv_server_fd sv1
                 then sv1\<lparr>sv_closed := sv_closed sv1 @ [sv_server_fd sv1], sv_server_fd := - 1\<rparr> else sv1)
      in if 0 \<le> sv_client_fd sv2
         then sv2\<lparr>sv_closed := sv_closed sv2 @ [sv_client_fd sv2], sv_client_fd := - 1\<rparr> else sv2)"

definition ipc_has_client :: "ipc_server \<Rightarrow> bool" where
  "ipc_has_client sv \<longleftrightarrow> 0 \<le> sv_client_fd sv"

definition ipc_pending_count :: "ipc_server \<Rightarrow> nat" where
  "ipc_pending_count sv = sv_pending_count sv"

section \<open>The accept thread and the reader threads\<close>

text \<open>The first slot in use with this id: the loops over \<open>g_pending\<close>.\<close>

definition find_pending :: "ipc_server \<Rightarrow> u32 \<Rightarrow> nat option" where
  "find_pending sv rid =
     List.find (\<lambda>i. pd_request_id (sv_pending sv ! i) = rid) [0..<sv_pending_count sv]"

text \<open>\<open>accept_thread_func\<close> once \<open>accept\<close> has returned a socket.\<close>

definition accept_client :: "int \<Rightarrow> ipc_server \<Rightarrow> ipc_server" where
  "accept_client client sv =
     (let sv1 = (if 0 \<le> sv_client_fd sv then sv\<lparr>sv_closed := sv_closed sv @ [sv_client_fd sv]\<rparr> else sv)
      in sv1\<lparr>sv_client_fd := client\<rparr>)"

text \<open>\<open>client_reader_thread\<close> where \<open>read\<close> returned nothing or failed.\<close>

definition reader_disconnect :: "int \<Rightarrow> ipc_server \<Rightarrow> ipc_server" where
  "reader_disconnect client_fd sv =
     (let sv1 = (if sv_client_fd sv = client_fd then sv\<lparr>sv_client_fd := - 1\<rparr> else sv)
      in sv1\<lparr>sv_closed := sv_closed sv1 @ [client_fd]\<rparr>)"

text \<open>\<open>client_reader_thread\<close> where a whole response was read.\<close>

definition reader_response :: "exec_response \<Rightarrow> ipc_server \<Rightarrow> ipc_server" where
  "reader_response r sv =
     (case find_pending sv (rs_request_id r) of
        None \<Rightarrow> sv
      | Some i \<Rightarrow> sv\<lparr>sv_pending := (sv_pending sv)
          [i := (sv_pending sv ! i)\<lparr>pd_response := rs_response r, pd_completed := True\<rparr>]\<rparr>)"

text \<open>
  What can happen while a request is under way: a client connects, one disconnects, a
  response arrives on some client's socket, or fewer bytes than a response do.
\<close>

datatype ipc_event =
  Ev_accept int | Ev_hangup int | Ev_response int exec_response | Ev_short_read int

fun ipc_env_step :: "ipc_event \<Rightarrow> ipc_server \<Rightarrow> ipc_server" where
  "ipc_env_step (Ev_accept fd) sv = accept_client fd sv"
| "ipc_env_step (Ev_hangup fd) sv = reader_disconnect fd sv"
| "ipc_env_step (Ev_response fd r) sv = reader_response r sv"
| "ipc_env_step (Ev_short_read fd) sv = sv"

section \<open>One request\<close>

text \<open>Taking the next id and the next free slot; \<open>None\<close> where the table is full.\<close>

definition take_request_id :: "ipc_server \<Rightarrow> u32 \<times> ipc_server" where
  "take_request_id sv =
     (sv_next_request_id sv, sv\<lparr>sv_next_request_id := sv_next_request_id sv + 1\<rparr>)"

definition allocate_pending :: "u32 \<Rightarrow> ipc_server \<Rightarrow> (nat \<times> ipc_server) option" where
  "allocate_pending rid sv =
     (if MAX_PENDING_REQUESTS \<le> sv_pending_count sv then None
      else Some (sv_pending_count sv,
        sv\<lparr>sv_pending := (sv_pending sv)[sv_pending_count sv :=
             \<lparr>pd_request_id = rid, pd_response = LEXEC_RESPONSE_TIMEOUT, pd_completed = False\<rparr>],
           sv_pending_count := Suc (sv_pending_count sv)\<rparr>))"

text \<open>\<open>memmove (&g_pending[i], &g_pending[i + 1], (count - i - 1) * sizeof)\<close>.\<close>

definition shift_down :: "nat \<Rightarrow> nat \<Rightarrow> 'a list \<Rightarrow> 'a list" where
  "shift_down i count xs = take i xs @ take (count - i - 1) (drop (Suc i) xs) @ drop (count - 1) xs"

definition remove_pending :: "u32 \<Rightarrow> ipc_server \<Rightarrow> ipc_server" where
  "remove_pending rid sv =
     (case find_pending sv rid of
        None \<Rightarrow> sv
      | Some i \<Rightarrow> sv\<lparr>sv_pending := shift_down i (sv_pending_count sv) (sv_pending sv),
                   sv_pending_count := sv_pending_count sv - 1\<rparr>)"

text \<open>The absolute time of the wait: \<open>ts\<close> after the additions and the carry.\<close>

definition wait_deadline :: "int \<Rightarrow> int \<Rightarrow> int \<Rightarrow> int \<times> int" where
  "wait_deadline sec nsec timeout_ms =
     (let sec1 = sec + timeout_ms div 1000;
          nsec1 = nsec + (timeout_ms mod 1000) * 1000000
      in if 1000000000 \<le> nsec1 then (sec1 + 1, nsec1 - 1000000000) else (sec1, nsec1))"

text \<open>
  \<open>while (!pending->completed) pthread_cond_(timed)wait (...)\<close> over the events of the wait:
  those before the deadline where there is one, all there ever are where there is none. The
  events left when the loop ends happen before the slot is given back.
\<close>

fun wait_loop :: "nat \<Rightarrow> bool \<Rightarrow> ipc_server \<Rightarrow> ipc_event list \<Rightarrow> (ipc_server \<times> ipc_event list) outcome" where
  "wait_loop slot timed sv [] =
     (if pd_completed (sv_pending sv ! slot) \<or> timed then Ret (sv, []) else Blocked)"
| "wait_loop slot timed sv (e # es) =
     (if pd_completed (sv_pending sv ! slot) then Ret (sv, e # es)
      else wait_loop slot timed (ipc_env_step e sv) es)"

text \<open>
  What the environment does during one request: events before the slot is taken, between the
  slot and the write, whether the write transfers the whole request, events of the wait.
\<close>

record ipc_env =
  env_before :: "ipc_event list"
  env_before_write :: "ipc_event list"
  env_write_ok :: bool
  env_wait :: "ipc_event list"

definition ipc_request_permission ::
  "ipc_env \<Rightarrow> exec_request \<Rightarrow> int \<Rightarrow> ipc_server \<Rightarrow> (ipc_server \<times> int) outcome" where
  "ipc_request_permission env request timeout_ms sv0 =
     (let client_fd = sv_client_fd sv0 in
      if client_fd < 0 then Ret (sv0, LEXEC_RESPONSE_NO_CLIENT)
      else let (rid, sv1) = take_request_id (fold ipc_env_step (env_before env) sv0);
               req_copy = request\<lparr>rq_request_id := rid\<rparr> in
      case allocate_pending rid sv1 of
        None \<Rightarrow> Ret (sv1, LEXEC_RESPONSE_TIMEOUT)
      | Some (slot, sv2) \<Rightarrow>
          (let sv3 = fold ipc_env_step (env_before_write env) sv2 in
           if \<not> env_write_ok env then Ret (remove_pending rid sv3, LEXEC_RESPONSE_NO_CLIENT)
           else bind_outcome
             (wait_loop slot (0 < timeout_ms)
                (sv3\<lparr>sv_sent := sv_sent sv3 @ [(client_fd, req_copy)]\<rparr>) (env_wait env))
             (\<lambda>(sv4, rest).
                let result = (if pd_completed (sv_pending sv4 ! slot)
                              then pd_response (sv_pending sv4 ! slot) else LEXEC_RESPONSE_TIMEOUT)
                in Ret (remove_pending rid (fold ipc_env_step rest sv4), result))))"

text \<open>The part of a request from the write on, and the two ways to come to it or not.\<close>

definition request_tail ::
  "ipc_env \<Rightarrow> int \<Rightarrow> nat \<Rightarrow> u32 \<Rightarrow> int \<Rightarrow> exec_request \<Rightarrow> ipc_server \<Rightarrow> (ipc_server \<times> int) outcome" where
  "request_tail env t slot rid fd copy sv =
     (if \<not> env_write_ok env then Ret (remove_pending rid sv, LEXEC_RESPONSE_NO_CLIENT)
      else bind_outcome
        (wait_loop slot (0 < t) (sv\<lparr>sv_sent := sv_sent sv @ [(fd, copy)]\<rparr>) (env_wait env))
        (\<lambda>(sv4, rest). Ret (remove_pending rid (fold ipc_env_step rest sv4),
           if pd_completed (sv_pending sv4 ! slot) then pd_response (sv_pending sv4 ! slot)
           else LEXEC_RESPONSE_TIMEOUT)))"

lemma request_cases [case_names no_client full slot]:
  obtains
    (no_client) "sv_client_fd sv < 0" "ipc_request_permission env req t sv = Ret (sv, LEXEC_RESPONSE_NO_CLIENT)"
  | (full) rid sv1 where "0 \<le> sv_client_fd sv"
      "take_request_id (fold ipc_env_step (env_before env) sv) = (rid, sv1)"
      "allocate_pending rid sv1 = None" "ipc_request_permission env req t sv = Ret (sv1, LEXEC_RESPONSE_TIMEOUT)"
  | (slot) rid sv1 slot sv2 where "0 \<le> sv_client_fd sv"
      "take_request_id (fold ipc_env_step (env_before env) sv) = (rid, sv1)"
      "allocate_pending rid sv1 = Some (slot, sv2)"
      "ipc_request_permission env req t sv =
         request_tail env t slot rid (sv_client_fd sv) (req\<lparr>rq_request_id := rid\<rparr>)
           (fold ipc_env_step (env_before_write env) sv2)"
proof (cases "sv_client_fd sv < 0")
  case True
  then show thesis by (intro no_client) (simp_all add: ipc_request_permission_def Let_def)
next
  case False
  obtain rid sv1 where t: "take_request_id (fold ipc_env_step (env_before env) sv) = (rid, sv1)"
    by (cases "take_request_id (fold ipc_env_step (env_before env) sv)")
  show thesis
  proof (cases "allocate_pending rid sv1")
    case None
    then show thesis using False t by (intro full) (simp_all add: ipc_request_permission_def Let_def)
  next
    case (Some a)
    obtain slot sv2 where a: "allocate_pending rid sv1 = Some (slot, sv2)" using Some by (cases a) simp
    show thesis
    proof (rule slot [OF _ t a])
      show "0 \<le> sv_client_fd sv" using False by simp
      show "ipc_request_permission env req t sv =
         request_tail env t slot rid (sv_client_fd sv) (req\<lparr>rq_request_id := rid\<rparr>)
           (fold ipc_env_step (env_before_write env) sv2)"
        using False unfolding ipc_request_permission_def request_tail_def Let_def
        by (simp add: t a split del: if_split)
    qed
  qed
qed

section \<open>One request at a time\<close>

text \<open>
  The daemon has one requester, the thread of the event loop, so the table is empty between
  requests and holds one slot during one.
\<close>

definition ipc_idle :: "ipc_server \<Rightarrow> bool" where
  "ipc_idle sv \<longleftrightarrow> sv_pending_count sv = 0 \<and> length (sv_pending sv) = MAX_PENDING_REQUESTS"

definition ipc_one :: "u32 \<Rightarrow> ipc_server \<Rightarrow> bool" where
  "ipc_one rid sv \<longleftrightarrow> sv_pending_count sv = 1 \<and> length (sv_pending sv) = MAX_PENDING_REQUESTS \<and>
     pd_request_id (sv_pending sv ! 0) = rid"

text \<open>The answers among some events that carry a given id, in order.\<close>

fun answers :: "u32 \<Rightarrow> ipc_event list \<Rightarrow> int list" where
  "answers rid [] = []"
| "answers rid (Ev_response fd r # es) =
     (if rs_request_id r = rid then rs_response r # answers rid es else answers rid es)"
| "answers rid (_ # es) = answers rid es"

definition expected_result :: "u32 \<Rightarrow> ipc_env \<Rightarrow> int \<Rightarrow> int outcome" where
  "expected_result rid env timeout_ms =
     (if \<not> env_write_ok env then Ret LEXEC_RESPONSE_NO_CLIENT
      else if answers rid (env_before_write env) \<noteq> [] then Ret (last (answers rid (env_before_write env)))
      else if answers rid (env_wait env) \<noteq> [] then Ret (hd (answers rid (env_wait env)))
      else if 0 < timeout_ms then Ret LEXEC_RESPONSE_TIMEOUT
      else Blocked)"

lemma ipc_initial_idle: "ipc_idle ipc_initial"
  by (simp add: ipc_idle_def ipc_initial_def MAX_PENDING_REQUESTS_def)

lemma env_step_next_id [simp]: "sv_next_request_id (ipc_env_step e sv) = sv_next_request_id sv"
  by (cases e) (auto simp: accept_client_def reader_disconnect_def reader_response_def Let_def
      split: option.split)

lemma env_step_sent [simp]: "sv_sent (ipc_env_step e sv) = sv_sent sv"
  by (cases e) (auto simp: accept_client_def reader_disconnect_def reader_response_def Let_def
      split: option.split)

lemma env_step_size [simp]:
  "sv_pending_count (ipc_env_step e sv) = sv_pending_count sv"
  "length (sv_pending (ipc_env_step e sv)) = length (sv_pending sv)"
  by (cases e; auto simp: accept_client_def reader_disconnect_def reader_response_def Let_def
      split: option.split)+

lemma fold_env_step_frame [simp]:
  "sv_next_request_id (fold ipc_env_step es sv) = sv_next_request_id sv"
  "sv_sent (fold ipc_env_step es sv) = sv_sent sv"
  by (induction es arbitrary: sv) auto

lemma find_pending_idle: "ipc_idle sv \<Longrightarrow> find_pending sv rid = None"
  by (simp add: ipc_idle_def find_pending_def)

lemma find_pending_one: "ipc_one rid sv \<Longrightarrow> find_pending sv r = (if r = rid then Some 0 else None)"
  by (auto simp: ipc_one_def find_pending_def)

lemma env_step_idle: "ipc_idle sv \<Longrightarrow> ipc_idle (ipc_env_step e sv)"
  by (simp add: ipc_idle_def)

lemma fold_env_step_idle: "ipc_idle sv \<Longrightarrow> ipc_idle (fold ipc_env_step es sv)"
  by (induction es arbitrary: sv) (auto intro: env_step_idle)

lemma reader_response_one:
  assumes "ipc_one rid sv"
  shows "ipc_one rid (reader_response r sv) \<and>
    sv_pending (reader_response r sv) ! 0 =
      (if rs_request_id r = rid
       then (sv_pending sv ! 0)\<lparr>pd_response := rs_response r, pd_completed := True\<rparr>
       else sv_pending sv ! 0)"
  using assms
  by (auto simp: reader_response_def find_pending_one [OF assms])
    (auto simp: ipc_one_def MAX_PENDING_REQUESTS_def)

lemma env_step_one:
  assumes "ipc_one rid sv"
  shows "ipc_one rid (ipc_env_step e sv) \<and>
    sv_pending (ipc_env_step e sv) ! 0 =
      (if answers rid [e] = [] then sv_pending sv ! 0
       else (sv_pending sv ! 0)\<lparr>pd_response := last (answers rid [e]), pd_completed := True\<rparr>)"
proof (cases e)
  case (Ev_response fd r)
  then show ?thesis using reader_response_one [OF assms, of r] by auto
qed (use assms in \<open>auto simp: accept_client_def reader_disconnect_def Let_def ipc_one_def\<close>)

lemma answers_Cons: "answers rid (e # es) = answers rid [e] @ answers rid es"
  by (cases e) auto

lemma fold_env_step_one:
  "ipc_one rid sv \<Longrightarrow> ipc_one rid (fold ipc_env_step es sv) \<and>
   sv_pending (fold ipc_env_step es sv) ! 0 =
     (if answers rid es = [] then sv_pending sv ! 0
      else (sv_pending sv ! 0)\<lparr>pd_response := last (answers rid es), pd_completed := True\<rparr>)"
proof (induction es arbitrary: sv)
  case Nil
  then show ?case by simp
next
  case (Cons e es)
  show ?case
    using Cons.IH [of "ipc_env_step e sv"] env_step_one [OF Cons.prems, of e]
    by (simp add: answers_Cons [of rid e es])
qed

lemma wait_loop_one:
  "ipc_one rid sv \<Longrightarrow> \<not> pd_completed (sv_pending sv ! 0) \<Longrightarrow>
   (answers rid es = [] \<longrightarrow>
      wait_loop 0 timed sv es = (if timed then Ret (fold ipc_env_step es sv, []) else Blocked)) \<and>
   (answers rid es \<noteq> [] \<longrightarrow>
      (\<exists>sv' rest. wait_loop 0 timed sv es = Ret (sv', rest) \<and> ipc_one rid sv' \<and>
         sv_next_request_id sv' = sv_next_request_id sv \<and> sv_sent sv' = sv_sent sv \<and>
         pd_completed (sv_pending sv' ! 0) \<and> pd_response (sv_pending sv' ! 0) = hd (answers rid es)))"
proof (induction es arbitrary: sv)
  case Nil
  then show ?case by simp
next
  case (Cons e es)
  note one = env_step_one [OF Cons.prems(1), of e]
  show ?case
  proof (cases "answers rid [e] = []")
    case True
    then have "\<not> pd_completed (sv_pending (ipc_env_step e sv) ! 0)" using one Cons.prems(2) by simp
    then show ?thesis
      using Cons.IH [of "ipc_env_step e sv"] one True Cons.prems(2) by (simp add: answers_Cons [of rid e es])
  next
    case False
    then have c: "pd_completed (sv_pending (ipc_env_step e sv) ! 0)"
      and v: "pd_response (sv_pending (ipc_env_step e sv) ! 0) = last (answers rid [e])"
      using one by simp_all
    have l: "last (answers rid [e]) = hd (answers rid (e # es))"
      using False by (cases e) auto
    have "wait_loop 0 timed sv (e # es) = Ret (ipc_env_step e sv, es)"
      using c Cons.prems(2) by (cases es) simp_all
    then show ?thesis using one c v l False by (auto simp: answers_Cons [of rid e es])
  qed
qed

lemma remove_pending_one: "ipc_one rid sv \<Longrightarrow> ipc_idle (remove_pending rid sv)"
  by (simp add: remove_pending_def find_pending_one)
    (auto simp: ipc_one_def ipc_idle_def shift_down_def)

lemma remove_pending_frame [simp]:
  "sv_next_request_id (remove_pending rid sv) = sv_next_request_id sv"
  "sv_sent (remove_pending rid sv) = sv_sent sv"
  by (simp_all add: remove_pending_def split: option.split)

lemma allocate_pending_idle:
  assumes "ipc_idle sv"
  obtains sv' where "allocate_pending rid sv = Some (0, sv')" "ipc_one rid sv'"
    "\<not> pd_completed (sv_pending sv' ! 0)" "sv_next_request_id sv' = sv_next_request_id sv"
    "sv_sent sv' = sv_sent sv"
  using assms by (auto simp: allocate_pending_def ipc_idle_def ipc_one_def MAX_PENDING_REQUESTS_def)

section \<open>What a request returns\<close>

lemma request_no_client:
  "sv_client_fd sv < 0 \<Longrightarrow>
   ipc_request_permission env req t sv = Ret (sv, LEXEC_RESPONSE_NO_CLIENT)"
  by (simp add: ipc_request_permission_def Let_def)

lemma request_tail_outcome:
  assumes one2: "ipc_one rid sv2" and nc2: "\<not> pd_completed (sv_pending sv2 ! 0)"
    and n2: "sv_next_request_id sv2 = rid + 1"
  shows "case expected_result rid env t of
      Ret x \<Rightarrow> \<exists>sv'. request_tail env t 0 rid fd copy (fold ipc_env_step (env_before_write env) sv2) = Ret (sv', x) \<and>
        ipc_idle sv' \<and> sv_next_request_id sv' = rid + 1
    | Blocked \<Rightarrow> request_tail env t 0 rid fd copy (fold ipc_env_step (env_before_write env) sv2) = Blocked
    | Undef \<Rightarrow> False"
proof -
  define sv3 where "sv3 = fold ipc_env_step (env_before_write env) sv2"
  define sent where "sent = sv3\<lparr>sv_sent := sv_sent sv3 @ [(fd, copy)]\<rparr>"
  have one3: "ipc_one rid sent" "ipc_one rid sv3"
    and slot3: "sv_pending sent ! 0 = (if answers rid (env_before_write env) = [] then sv_pending sv2 ! 0
      else (sv_pending sv2 ! 0)\<lparr>pd_response := last (answers rid (env_before_write env)), pd_completed := True\<rparr>)"
    and n3: "sv_next_request_id sent = rid + 1" "sv_next_request_id sv3 = rid + 1"
    using fold_env_step_one [OF one2, of "env_before_write env"] one2 n2
    by (simp_all add: sent_def sv3_def ipc_one_def)
  have fin: "ipc_idle (remove_pending rid (fold ipc_env_step rest sv4)) \<and>
      sv_next_request_id (remove_pending rid (fold ipc_env_step rest sv4)) = rid + 1"
    if "ipc_one rid sv4" "sv_next_request_id sv4 = rid + 1" for sv4 rest
    using that remove_pending_one fold_env_step_one [OF that(1), of rest] by simp
  show ?thesis
  proof (cases "env_write_ok env")
    case False
    then show ?thesis
      using remove_pending_one [OF one3(2)] n3 by (simp add: expected_result_def request_tail_def sv3_def)
  next
    case ok: True
    show ?thesis
    proof (cases "answers rid (env_before_write env) = []")
      case False
      then have "wait_loop 0 (0 < t) sent (env_wait env) = Ret (sent, env_wait env)"
        using slot3 by (cases "env_wait env") simp_all
      then show ?thesis
        using ok False slot3 fin [OF one3(1) n3(1), of "env_wait env"]
        by (simp add: expected_result_def request_tail_def sent_def sv3_def)
    next
      case True
      then have nc: "\<not> pd_completed (sv_pending sent ! 0)" using slot3 nc2 by simp
      note w = wait_loop_one [OF one3(1) nc, of "env_wait env" "0 < t"]
      show ?thesis
      proof (cases "answers rid (env_wait env) = []")
        case none: True
        let ?sv4 = "fold ipc_env_step (env_wait env) sent"
        have "ipc_one rid ?sv4" "\<not> pd_completed (sv_pending ?sv4 ! 0)" "sv_next_request_id ?sv4 = rid + 1"
          using fold_env_step_one [OF one3(1), of "env_wait env"] none nc n3(1) by simp_all
        then show ?thesis
          using ok True none w fin [of ?sv4 "[]"] unfolding request_tail_def sv3_def [symmetric] sent_def [symmetric]
          by (cases "0 < t") (simp_all add: expected_result_def)
      next
        case False
        then obtain sv4 rest where "wait_loop 0 (0 < t) sent (env_wait env) = Ret (sv4, rest)"
          "ipc_one rid sv4" "sv_next_request_id sv4 = rid + 1" "pd_completed (sv_pending sv4 ! 0)"
          "pd_response (sv_pending sv4 ! 0) = hd (answers rid (env_wait env))"
          using w n3(1) by auto
        then show ?thesis
          using ok True False fin [of sv4 rest] unfolding request_tail_def sv3_def [symmetric] sent_def [symmetric]
          by (simp add: expected_result_def)
      qed
    qed
  qed
qed

lemma request_outcome:
  assumes idle: "ipc_idle sv" and client: "0 \<le> sv_client_fd sv"
  shows "case expected_result (sv_next_request_id sv) env t of
      Ret x \<Rightarrow> \<exists>sv'. ipc_request_permission env req t sv = Ret (sv', x) \<and> ipc_idle sv' \<and>
        sv_next_request_id sv' = sv_next_request_id sv + 1
    | Blocked \<Rightarrow> ipc_request_permission env req t sv = Blocked
    | Undef \<Rightarrow> False"
proof (cases rule: request_cases [of sv env req t])
  case no_client
  then show ?thesis using client by simp
next
  case (full rid sv1)
  then show ?thesis
    using fold_env_step_idle [OF idle, of "env_before env"]
    by (auto simp: take_request_id_def allocate_pending_def ipc_idle_def MAX_PENDING_REQUESTS_def split: if_splits)
next
  case (slot rid sv1 k sv2)
  have rid: "rid = sv_next_request_id sv" and idle1: "ipc_idle sv1" "sv_next_request_id sv1 = rid + 1"
    using slot(2) fold_env_step_idle [OF idle] by (auto simp: take_request_id_def ipc_idle_def)
  obtain sv2' where "allocate_pending rid sv1 = Some (0, sv2')" "ipc_one rid sv2'"
    "\<not> pd_completed (sv_pending sv2' ! 0)" "sv_next_request_id sv2' = rid + 1"
    using allocate_pending_idle [OF idle1(1), of rid] idle1(2) by metis
  then have one2: "k = 0" "ipc_one rid sv2" "\<not> pd_completed (sv_pending sv2 ! 0)" "sv_next_request_id sv2 = rid + 1"
    using slot(3) by simp_all
  show ?thesis
    using request_tail_outcome [OF one2(2-4), where env = env and t = t and fd = "sv_client_fd sv"
        and copy = "req\<lparr>rq_request_id := rid\<rparr>"]
    unfolding slot(4) rid [symmetric] one2(1) .
qed

lemma request_full:
  assumes "0 \<le> sv_client_fd sv" and "MAX_PENDING_REQUESTS \<le> sv_pending_count sv"
  shows "\<exists>sv'. ipc_request_permission env req t sv = Ret (sv', LEXEC_RESPONSE_TIMEOUT) \<and>
    sv_sent sv' = sv_sent sv \<and> sv_pending_count sv' = sv_pending_count sv"
proof -
  have "sv_pending_count (fold ipc_env_step es sv) = sv_pending_count sv" for es
    by (induction es arbitrary: sv) auto
  then show ?thesis using assms
    by (simp add: ipc_request_permission_def Let_def take_request_id_def allocate_pending_def)
qed

text \<open>The deadline is the time of the call plus the timeout, in a normal form.\<close>

lemma wait_deadline_normal:
  assumes "0 \<le> nsec" "nsec < 1000000000" "0 \<le> timeout_ms" "wait_deadline sec nsec timeout_ms = (s, n)"
  shows "0 \<le> n \<and> n < 1000000000 \<and>
    s * 1000000000 + n = sec * 1000000000 + nsec + timeout_ms * 1000000"
proof -
  define q r where "q = timeout_ms div 1000" and "r = timeout_ms mod 1000"
  have t: "timeout_ms = 1000 * q + r" "0 \<le> r" "r < 1000" by (simp_all add: q_def r_def)
  have "(s, n) = (if 1000000000 \<le> nsec + r * 1000000
      then (sec + q + 1, nsec + r * 1000000 - 1000000000) else (sec + q, nsec + r * 1000000))"
    using assms(4) by (auto simp: wait_deadline_def Let_def q_def r_def split: if_splits)
  then have "1000000000 \<le> nsec + r * 1000000 \<and> s = sec + q + 1 \<and> n = nsec + r * 1000000 - 1000000000 \<or>
      nsec + r * 1000000 < 1000000000 \<and> s = sec + q \<and> n = nsec + r * 1000000"
    by (auto split: if_splits)
  then show ?thesis using assms(1,2) t by (elim disjE conjE) linarith+
qed

end
