(* ===== verification/Fanotify.thy ===== *)
theory Fanotify
  imports Cache Config Ipc
begin

text \<open>
  \<open>src/src/daemon/fanotify_handler.c\<close>: the monitor that answers the kernel's permission
  events. The state \<open>monitor\<close> holds the file's globals and those of the components the
  handlers call (cache, whitelist, IPC server) with the answers written and the descriptors
  closed. An event comes with \<open>event_env\<close>: the file the kernel opened for it, what
  \<open>readlink\<close> shows, whether the answer can be written, and what the client does during it.
  A handler returns \<open>Blocked\<close> where the request to the client never comes back.
\<close>

section \<open>Kernel interface\<close>

definition FAN_OPEN_PERM :: u64 where "FAN_OPEN_PERM = 0x00010000"
definition FAN_OPEN_EXEC_PERM :: u64 where "FAN_OPEN_EXEC_PERM = 0x00040000"
definition FANOTIFY_METADATA_VERSION :: u8 where "FANOTIFY_METADATA_VERSION = 3"
definition FAN_EVENT_METADATA_LEN :: int where "FAN_EVENT_METADATA_LEN = 24"

definition FAN_CLOEXEC :: u32 where "FAN_CLOEXEC = 1"
definition FAN_NONBLOCK :: u32 where "FAN_NONBLOCK = 2"
definition FAN_CLASS_CONTENT :: u32 where "FAN_CLASS_CONTENT = 4"
definition FAN_MARK_ADD :: u32 where "FAN_MARK_ADD = 1"
definition FAN_MARK_MOUNT :: u32 where "FAN_MARK_MOUNT = 16"

lemmas fan_consts = FAN_OPEN_PERM_def FAN_OPEN_EXEC_PERM_def FANOTIFY_METADATA_VERSION_def
  FAN_EVENT_METADATA_LEN_def FAN_CLOEXEC_def FAN_NONBLOCK_def FAN_CLASS_CONTENT_def
  FAN_MARK_ADD_def FAN_MARK_MOUNT_def

record fan_event =
  ev_len :: u32
  ev_vers :: u8
  ev_mask :: u64
  ev_fd :: int
  ev_pid :: int

record event_env =
  en_target :: "string option"
  en_file :: fdesc
  en_exe :: "string option"
  en_write_ok :: bool
  en_malloc_ok :: bool
  en_meanwhile :: "ipc_event list"
  en_gui :: ipc_env

text \<open>The calls that set the group up: \<open>fanotify_init\<close> and \<open>fanotify_mark\<close>.\<close>

record fan_sys =
  fs_init :: "u32 \<Rightarrow> int"
  fs_mark :: "int \<Rightarrow> u32 \<Rightarrow> u64 \<Rightarrow> string \<Rightarrow> int"

section \<open>State\<close>

datatype verdict = Deny | Allow

text \<open>Verdicts are ordered by permissiveness.\<close>

instantiation verdict :: linorder
begin

definition less_eq_verdict :: "verdict \<Rightarrow> verdict \<Rightarrow> bool" where
  "less_eq_verdict v w \<longleftrightarrow> (v = Allow \<longrightarrow> w = Allow)"

definition less_verdict :: "verdict \<Rightarrow> verdict \<Rightarrow> bool" where
  "less_verdict v w \<longleftrightarrow> v = Deny \<and> w = Allow"

instance
proof
  fix u v w :: verdict
  show "u < v \<longleftrightarrow> u \<le> v \<and> \<not> v \<le> u"
    by (cases u; cases v) (simp_all add: less_eq_verdict_def less_verdict_def)
  show "u \<le> u" by (simp add: less_eq_verdict_def)
  show "u \<le> v \<Longrightarrow> v \<le> w \<Longrightarrow> u \<le> w" by (simp add: less_eq_verdict_def)
  show "u \<le> v \<Longrightarrow> v \<le> u \<Longrightarrow> u = v"
    by (cases u; cases v) (simp_all add: less_eq_verdict_def)
  show "u \<le> v \<or> v \<le> u" by (cases u) (simp_all add: less_eq_verdict_def)
qed

end

record 'db monitor =
  mo_cache :: cache
  mo_whitelist :: "'db whitelist"
  mo_ipc :: ipc_server
  mo_answers :: "(int \<times> verdict) list"
  mo_closed :: "int list"
  g_running :: bool
  g_monitor_shared_libs :: int
  g_stat_allowed :: u64
  g_stat_denied :: u64
  g_stat_cached :: u64

text \<open>What the handlers use and never change: the libraries, the system, \<open>g_config\<close>.\<close>

record ('c, 'db) world =
  wo_sha :: "'c sha256_api"
  wo_sql :: "'db sqlite"
  wo_os :: os
  wo_config :: config

section \<open>Setting up\<close>

definition fanotify_init_exec_monitor :: "fan_sys \<Rightarrow> int" where
  "fanotify_init_exec_monitor sys =
     (let fan_fd = fs_init sys (FAN_CLOEXEC OR FAN_CLASS_CONTENT OR FAN_NONBLOCK) in
      if fan_fd = - 1 then - 1 else fan_fd)"

definition mount_mask :: "int \<Rightarrow> u64" where
  "mount_mask shared_libs =
     (if shared_libs \<noteq> 0 then FAN_OPEN_EXEC_PERM OR FAN_OPEN_PERM else FAN_OPEN_EXEC_PERM)"

definition fanotify_add_mount :: "fan_sys \<Rightarrow> 'db monitor \<Rightarrow> int \<Rightarrow> string \<Rightarrow> int" where
  "fanotify_add_mount sys d fan_fd mount_path =
     (if fs_mark sys fan_fd (FAN_MARK_ADD OR FAN_MARK_MOUNT)
           (mount_mask (g_monitor_shared_libs d)) mount_path = - 1
      then - 1 else 0)"

definition fanotify_set_monitor_shared_libs :: "int \<Rightarrow> 'db monitor \<Rightarrow> 'db monitor" where
  "fanotify_set_monitor_shared_libs enabled d = d\<lparr>g_monitor_shared_libs := enabled\<rparr>"

definition fanotify_stop :: "'db monitor \<Rightarrow> 'db monitor" where
  "fanotify_stop d = d\<lparr>g_running := False\<rparr>"

definition fanotify_get_stats :: "'db monitor \<Rightarrow> u64 \<times> u64 \<times> u64" where
  "fanotify_get_stats d = (g_stat_allowed d, g_stat_denied d, g_stat_cached d)"

section \<open>Answers\<close>

definition fanotify_allow :: "bool \<Rightarrow> int \<Rightarrow> 'db monitor \<Rightarrow> 'db monitor" where
  "fanotify_allow write_ok event_fd d =
     (if \<not> write_ok then d
      else d\<lparr>mo_answers := mo_answers d @ [(event_fd, Allow)], g_stat_allowed := g_stat_allowed d + 1\<rparr>)"

definition fanotify_deny :: "bool \<Rightarrow> int \<Rightarrow> 'db monitor \<Rightarrow> 'db monitor" where
  "fanotify_deny write_ok event_fd d =
     (if \<not> write_ok then d
      else d\<lparr>mo_answers := mo_answers d @ [(event_fd, Deny)], g_stat_denied := g_stat_denied d + 1\<rparr>)"

section \<open>Looking at the file\<close>

text \<open>\<open>readlink\<close> into a buffer of \<open>path_size\<close> bytes, the last one for the NUL.\<close>

definition get_path_from_fd :: "event_env \<Rightarrow> nat \<Rightarrow> string option" where
  "get_path_from_fd env path_size = map_option (take (path_size - 1)) (en_target env)"

definition get_parent_path :: "event_env \<Rightarrow> nat \<Rightarrow> string \<times> int" where
  "get_parent_path env path_size =
     (case en_exe env of None \<Rightarrow> ([], - 1) | Some p \<Rightarrow> (take (path_size - 1) p, 0))"

definition is_elf_file :: "fdesc \<Rightarrow> fdesc \<times> bool" where
  "is_elf_file f =
     (let pos = lseek_cur f;
          (f2, r) = read_fd (fst (lseek_set f 0)) 4;
          f3 = (case pos of None \<Rightarrow> f2 | Some p \<Rightarrow> fst (lseek_set f2 p))
      in case r of
           None \<Rightarrow> (f3, False)
         | Some magic \<Rightarrow>
             if length magic \<noteq> 4 then (f3, False)
             else (f3, magic ! 0 = 0x7f \<and> magic ! 1 = 0x45 \<and> magic ! 2 = 0x4c \<and> magic ! 3 = 0x46))"

definition is_shared_library :: "string \<Rightarrow> bool" where
  "is_shared_library path =
     (if (case strrchr (CHR ''.'') path of None \<Rightarrow> False | Some ext \<Rightarrow> ext = ''.so'') then True
      else if strstr path ''.so.'' \<noteq> None then True
      else False)"

section \<open>Asking the user\<close>

definition PATH_MAX :: nat where "PATH_MAX = 4096"
definition SHA256_HEX_LENGTH :: nat where "SHA256_HEX_LENGTH = 64"

definition build_request :: "event_env \<Rightarrow> string \<Rightarrow> string \<Rightarrow> int \<Rightarrow> bool \<Rightarrow> exec_request" where
  "build_request env path hash pid is_so =
     \<lparr>rq_request_id = 0, rq_pid = pid, rq_uid = 0, rq_path = take (PATH_MAX - 1) path,
      rq_hash = take SHA256_HEX_LENGTH hash, rq_cmdline = [],
      rq_parent_path = fst (get_parent_path env PATH_MAX), rq_is_shared_lib = (if is_so then 1 else 0)\<rparr>"

text \<open>The \<open>switch\<close>: 1 allow and whitelist, 0 allow once, -1 deny.\<close>

definition decision_of :: "config \<Rightarrow> int \<Rightarrow> int" where
  "decision_of g response =
     (let fallback = (if daemon_get_default_deny g then - 1 else 0) in
      if response = LEXEC_RESPONSE_ALLOW_ALWAYS then 1
      else if response = LEXEC_RESPONSE_ALLOW_ONCE then 0
      else if response = LEXEC_RESPONSE_DENY then - 1
      else if response = LEXEC_RESPONSE_TIMEOUT then fallback
      else if response = LEXEC_RESPONSE_NO_CLIENT then fallback
      else fallback)"

definition ask_user_permission ::
  "config \<Rightarrow> event_env \<Rightarrow> string \<Rightarrow> string \<Rightarrow> int \<Rightarrow> bool \<Rightarrow> ipc_server \<Rightarrow> (ipc_server \<times> int) outcome" where
  "ask_user_permission g env path hash pid is_so sv =
     bind_outcome
       (ipc_request_permission (en_gui env) (build_request env path hash pid is_so)
          (daemon_get_gui_timeout g) sv)
       (\<lambda>(sv', response). Ret (sv', decision_of g response))"

section \<open>Handlers\<close>

text \<open>\<open>whitelist_add (hash, path, 0); cache_add (hash, path, 0)\<close>, results ignored.\<close>

definition remember :: "('c, 'db) world \<Rightarrow> bool \<Rightarrow> string \<Rightarrow> string \<Rightarrow> 'db monitor \<Rightarrow> 'db monitor outcome" where
  "remember wo malloc_ok hash path d =
     (let w1 = fst (whitelist_add (wo_sql wo) (wo_os wo) (mo_whitelist d) hash path 0) in
      bind_outcome (cache_add (wo_sql wo) (wo_os wo) malloc_ok (mo_cache d) w1 hash path 0)
        (\<lambda>(c', w', _). Ret (d\<lparr>mo_cache := c', mo_whitelist := w'\<rparr>)))"

definition handle_open_perm_event ::
  "('c, 'db) world \<Rightarrow> fan_event \<Rightarrow> event_env \<Rightarrow> 'db monitor \<Rightarrow> 'db monitor outcome" where
  "handle_open_perm_event wo ev env d =
     (let allow = fanotify_allow (en_write_ok env) (ev_fd ev);
          deny = fanotify_deny (en_write_ok env) (ev_fd ev) in
      case get_path_from_fd env PATH_MAX of
        None \<Rightarrow> Ret (allow d)
      | Some path \<Rightarrow>
      if is_path_excluded (wo_config wo) path then Ret (allow d)
      else if \<not> is_shared_library path then Ret (allow d)
      else case is_elf_file (en_file env) of (f1, elf) \<Rightarrow>
      if \<not> elf then Ret (allow d)
      else case snd (hash_fd (wo_sha wo) f1) of
        None \<Rightarrow> Ret (allow d)
      | Some hash \<Rightarrow>
      bind_outcome (cache_check (mo_cache d) hash) (\<lambda>(c1, cached).
      let d1 = d\<lparr>mo_cache := c1\<rparr> in
      if cached \<noteq> 0 then Ret (allow (d1\<lparr>g_stat_cached := g_stat_cached d1 + 1\<rparr>))
      else case whitelist_check (wo_sql wo) (mo_whitelist d1) hash of (w2, listed) \<Rightarrow>
      let d2 = d1\<lparr>mo_whitelist := w2\<rparr> in
      if listed \<noteq> 0 then
        bind_outcome (cache_add (wo_sql wo) (wo_os wo) (en_malloc_ok env) (mo_cache d2)
            (mo_whitelist d2) hash path 0)
          (\<lambda>(c3, w3, _). Ret (allow (d2\<lparr>mo_cache := c3, mo_whitelist := w3\<rparr>)))
      else if daemon_is_learning_mode (wo_config wo) then
        bind_outcome (remember wo (en_malloc_ok env) hash path d2) (\<lambda>d3. Ret (allow d3))
      else bind_outcome
        (ask_user_permission (wo_config wo) env path hash (ev_pid ev) True (mo_ipc d2))
        (\<lambda>(sv3, decision).
           let d3 = d2\<lparr>mo_ipc := sv3\<rparr> in
           if 0 \<le> decision then
             (if decision = 1 then
                bind_outcome (remember wo (en_malloc_ok env) hash path d3) (\<lambda>d4. Ret (allow d4))
              else Ret (allow d3))
           else Ret (deny d3))))"

definition handle_exec_perm_event ::
  "('c, 'db) world \<Rightarrow> fan_event \<Rightarrow> event_env \<Rightarrow> 'db monitor \<Rightarrow> 'db monitor outcome" where
  "handle_exec_perm_event wo ev env d =
     (let allow = fanotify_allow (en_write_ok env) (ev_fd ev);
          deny = fanotify_deny (en_write_ok env) (ev_fd ev) in
      case get_path_from_fd env PATH_MAX of
        None \<Rightarrow> Ret (allow d)
      | Some path \<Rightarrow>
      if is_path_excluded (wo_config wo) path then Ret (allow d)
      else case is_elf_file (en_file env) of (f1, elf) \<Rightarrow>
      if \<not> elf then Ret (allow d)
      else case snd (hash_fd (wo_sha wo) f1) of
        None \<Rightarrow> Ret (allow d)
      | Some hash \<Rightarrow>
      bind_outcome (cache_check (mo_cache d) hash) (\<lambda>(c1, cached).
      let d1 = d\<lparr>mo_cache := c1\<rparr> in
      if cached \<noteq> 0 then Ret (allow (d1\<lparr>g_stat_cached := g_stat_cached d1 + 1\<rparr>))
      else case whitelist_check (wo_sql wo) (mo_whitelist d1) hash of (w2, listed) \<Rightarrow>
      let d2 = d1\<lparr>mo_whitelist := w2\<rparr> in
      if listed \<noteq> 0 then
        bind_outcome (cache_add (wo_sql wo) (wo_os wo) (en_malloc_ok env) (mo_cache d2)
            (mo_whitelist d2) hash path 0)
          (\<lambda>(c3, w3, _). Ret (allow (d2\<lparr>mo_cache := c3, mo_whitelist := w3\<rparr>)))
      else if daemon_is_learning_mode (wo_config wo) then
        bind_outcome (remember wo (en_malloc_ok env) hash path d2) (\<lambda>d3. Ret (allow d3))
      else bind_outcome
        (ask_user_permission (wo_config wo) env path hash (ev_pid ev) False (mo_ipc d2))
        (\<lambda>(sv3, decision).
           let d3 = d2\<lparr>mo_ipc := sv3\<rparr> in
           if 0 \<le> decision then
             (if decision = 1 then
                bind_outcome (remember wo (en_malloc_ok env) hash path d3) (\<lambda>d4. Ret (allow d4))
              else Ret (allow d3))
           else Ret (deny d3))))"

section \<open>The event loop\<close>

definition FAN_EVENT_OK :: "fan_event \<Rightarrow> int \<Rightarrow> bool" where
  "FAN_EVENT_OK ev len \<longleftrightarrow> FAN_EVENT_METADATA_LEN \<le> len \<and>
     FAN_EVENT_METADATA_LEN \<le> uint (ev_len ev) \<and> uint (ev_len ev) \<le> len"

definition close_event_fd :: "fan_event \<Rightarrow> 'db monitor \<Rightarrow> 'db monitor" where
  "close_event_fd ev d = (if 0 \<le> ev_fd ev then d\<lparr>mo_closed := mo_closed d @ [ev_fd ev]\<rparr> else d)"

text \<open>The body of the inner loop: which handler runs, then \<open>close\<close>.\<close>

definition handle_event ::
  "('c, 'db) world \<Rightarrow> fan_event \<Rightarrow> event_env \<Rightarrow> 'db monitor \<Rightarrow> 'db monitor outcome" where
  "handle_event wo ev env d0 =
     (let d = d0\<lparr>mo_ipc := fold ipc_env_step (en_meanwhile env) (mo_ipc d0)\<rparr> in
      bind_outcome
        (if ev_mask ev AND FAN_OPEN_EXEC_PERM \<noteq> 0 then handle_exec_perm_event wo ev env d
         else if ev_mask ev AND FAN_OPEN_PERM \<noteq> 0 then handle_open_perm_event wo ev env d
         else Ret d)
        (\<lambda>d'. Ret (close_event_fd ev d')))"

text \<open>The inner loop over one buffer: the events it holds and the bytes left of it.\<close>

fun process_events ::
  "('c, 'db) world \<Rightarrow> int \<Rightarrow> (fan_event \<times> event_env) list \<Rightarrow> 'db monitor \<Rightarrow> 'db monitor outcome" where
  "process_events wo len [] d = Ret d"
| "process_events wo len ((ev, env) # evs) d =
     (if \<not> FAN_EVENT_OK ev len then Ret d
      else if ev_vers ev \<noteq> FANOTIFY_METADATA_VERSION then Ret d
      else bind_outcome (handle_event wo ev env d)
             (process_events wo (len - uint (ev_len ev)) evs))"

text \<open>
  What each turn of the outer loop meets: a signal that runs \<open>fanotify_stop\<close>, a read with
  nothing to deliver, an interrupted or failing read, or a buffer of events. With no input
  left the loop is still waiting, unless it was stopped.
\<close>

datatype loop_input =
  In_stop | In_again | In_interrupted | In_error | In_events "(fan_event \<times> event_env) list"

datatype 'd loop_result = Stopped 'd | Waiting 'd

definition buffer_length :: "(fan_event \<times> event_env) list \<Rightarrow> int" where
  "buffer_length evs = sum_list (map (\<lambda>(ev, env). uint (ev_len ev)) evs)"

fun fanotify_event_loop ::
  "('c, 'db) world \<Rightarrow> loop_input list \<Rightarrow> 'db monitor \<Rightarrow> 'db monitor loop_result outcome" where
  "fanotify_event_loop wo [] d = Ret (if g_running d then Waiting d else Stopped d)"
| "fanotify_event_loop wo (x # xs) d =
     (if \<not> g_running d then Ret (Stopped d)
      else case x of
        In_stop \<Rightarrow> fanotify_event_loop wo xs (fanotify_stop d)
      | In_again \<Rightarrow> fanotify_event_loop wo xs d
      | In_interrupted \<Rightarrow> fanotify_event_loop wo xs d
      | In_error \<Rightarrow> Ret (Stopped d)
      | In_events evs \<Rightarrow>
          bind_outcome (process_events wo (buffer_length evs) evs d)
            (fanotify_event_loop wo xs))"

end
