(* ===== verification/Policy.thy ===== *)
theory Policy
  imports Fanotify
begin

text \<open>
  What the handlers of \<open>fanotify_handler.c\<close> promise. \<open>subject\<close> says which events are
  judged at all, \<open>ruling\<close> how: a known digest passes, learning mode admits and records,
  and otherwise the user's answer or the default decides. Both handlers refine it, answer
  exactly once, and keep the cache a part of the whitelist. \<open>event_step\<close> is the contract of
  a handler as the event loop relies on it.
\<close>

section \<open>Cache and whitelist as the two levels of one store\<close>

lemma wl_add_law_keyed:
  "wl_invar s \<Longrightarrow> hex_key k \<Longrightarrow> wl_add os p y s k = (s', b) \<Longrightarrow>
   wl_invar s' \<and> wl_members s' = (if b then insert k (wl_members s) else wl_members s)"
  by (rule wl_add_law)

interpretation tl: two_level_store hex_key cache_wf cache_members cs_check
    "cs_add api os malloc_ok w path" cs_remove
    wl_invar wl_members wl_check "wl_add os' path' y" wl_remove
  for api os malloc_ok w path os' path' y
  by unfold_locales (erule (1) wl_check_law wl_add_law wl_remove_law)+

lemma cache_check_cs:
  assumes "cache_wf c" "hex_key h"
  shows "cache_check c h = Ret (fst (cs_check c h), if h \<in> cache_members c then 1 else 0)"
proof -
  obtain d where d: "length d = 32" "h = bytes_to_hex d" "length h = 64" "hex_to_bytes h = Some d"
    using assms(2) by (rule hex_keyE)
  show ?thesis
    using cache_check_exact [OF assms(1) d(3,4)] cache_members_iff [OF assms(1) d(1)] d(2)
    by (auto simp: cs_check_def)
qed

lemma cache_add_cs:
  assumes "cache_wf c" "hex_key h"
  shows "\<exists>r. cache_add api os malloc_ok c w h path 0 = Ret (fst (cs_add api os malloc_ok w path c h), w, r)"
proof -
  obtain d where d: "length d = 32" "h = bytes_to_hex d" "length h = 64" "hex_to_bytes h = Some d"
    using assms(2) by (rule hex_keyE)
  show ?thesis
    using cache_add_exact [OF assms(1) d(3,4), of api os malloc_ok w path 0]
    by (auto simp: cs_add_def)
qed

section \<open>Looking at the file\<close>

lemma is_elf_file_frame:
  assumes "is_elf_file f = (f', b)"
  shows "fd_content f' = fd_content f \<and> fd_seekable f' = fd_seekable f \<and>
    (fd_seekable f \<longrightarrow> fd_pos f' = fd_pos f)"
  using assms
  by (auto simp: is_elf_file_def Let_def lseek_set_def lseek_cur_def
      split: prod.splits option.splits if_splits dest!: read_fd_frame)

lemma elf_magic_bytes:
  "length magic = 4 \<Longrightarrow>
   (magic ! 0 = 0x7f \<and> magic ! 1 = 0x45 \<and> magic ! 2 = 0x4c \<and> magic ! 3 = (0x46 :: u8)) \<longleftrightarrow> magic = elf_magic"
  by (auto simp: elf_magic_def list_eq_iff_nth_eq numeral_eq_Suc less_Suc_eq)

lemma is_elf_file_true:
  assumes "snd (is_elf_file f)" "fd_seekable f"
  shows "prefix elf_magic (fd_content f)"
proof -
  obtain g r where rd: "read_fd (f\<lparr>fd_pos := 0\<rparr>) 4 = (g, r)" by fastforce
  then obtain magic where r: "r = Some magic" and m: "magic = elf_magic"
    using assms elf_magic_bytes
    by (auto simp: is_elf_file_def Let_def lseek_set_def split: option.splits if_splits)
  show ?thesis using read_fd_Some [of "f\<lparr>fd_pos := 0\<rparr>" 4 g magic] rd r m
    by (metis drop0 fdesc.select_convs(1) fdesc.surjective fdesc.update_convs(2) fdesc.select_convs(2) take_is_prefix)
qed

lemma is_elf_file_exact:
  assumes "fd_seekable f" "fd_reads f = []"
  shows "snd (is_elf_file f) \<longleftrightarrow> prefix elf_magic (fd_content f)"
proof -
  have "snd (is_elf_file f) \<longleftrightarrow> length (take 4 (fd_content f)) = 4 \<and> take 4 (fd_content f) = elf_magic"
    using assms elf_magic_bytes [of "take 4 (fd_content f)"]
    by (auto simp: is_elf_file_def Let_def lseek_set_def lseek_cur_def read_fd_def split: if_splits)
  also have "\<dots> \<longleftrightarrow> prefix elf_magic (fd_content f)"
    by (metis append_eq_conv_conj length_elf_magic prefix_def take_is_prefix)
  finally show ?thesis .
qed

lemma is_shared_library_iff:
  "is_shared_library path \<longleftrightarrow> suffix ''.so'' path \<or> sublist ''.so.'' path"
proof -
  have "(case strrchr (CHR ''.'') path of None \<Rightarrow> False | Some ext \<Rightarrow> ext = ''.so'') \<longleftrightarrow> suffix ''.so'' path"
  proof
    assume "case strrchr (CHR ''.'') path of None \<Rightarrow> False | Some ext \<Rightarrow> ext = ''.so''"
    then show "suffix ''.so'' path" using strrchr_suffix by (auto split: option.splits)
  next
    assume "suffix ''.so'' path"
    then obtain p where "path = p @ ''.so''" by (auto simp: suffix_def)
    then show "case strrchr (CHR ''.'') path of None \<Rightarrow> False | Some ext \<Rightarrow> ext = ''.so''"
      by (simp add: strrchr_append)
  qed
  then show ?thesis using strstr_sublist [of path "''.so.''"] by (simp add: is_shared_library_def)
qed

section \<open>Which events are judged\<close>

definition subject :: "bool \<Rightarrow> ('c, 'db) world \<Rightarrow> event_env \<Rightarrow> (string \<times> string) option" where
  "subject is_exec wo env =
     (case get_path_from_fd env PATH_MAX of
        None \<Rightarrow> None
      | Some path \<Rightarrow>
          if is_path_excluded (wo_config wo) path \<or> \<not> is_exec \<and> \<not> is_shared_library path \<or>
             \<not> snd (is_elf_file (en_file env)) then None
          else map_option (Pair path) (snd (hash_fd (wo_sha wo) (fst (is_elf_file (en_file env))))))"

text \<open>The part the two handlers share, from the look-up in the cache on.\<close>

definition judge ::
  "('c, 'db) world \<Rightarrow> fan_event \<Rightarrow> event_env \<Rightarrow> bool \<Rightarrow> string \<Rightarrow> string \<Rightarrow> 'db monitor \<Rightarrow>
   'db monitor outcome" where
  "judge wo ev env is_so path hash d =
     (let allow = fanotify_allow (en_write_ok env) (ev_fd ev);
          deny = fanotify_deny (en_write_ok env) (ev_fd ev) in
      bind_outcome (cache_check (mo_cache d) hash) (\<lambda>(c1, cached).
      let d1 = d\<lparr>mo_cache := c1\<rparr> in
      if cached \<noteq> 0 then Ret (allow (d1\<lparr>g_stat_cached := g_stat_cached d1 + 1\<rparr>))
      else case whitelist_check (wo_sql wo) (mo_whitelist d1) hash of (w2, listed) \<Rightarrow>
      let d2 = d1\<lparr>mo_whitelist := w2\<rparr> in
      if listed \<noteq> 0 then
        bind_outcome (cache_add (wo_sql wo) (wo_os wo) (en_malloc_ok env) (mo_cache d2)
            (mo_whitelist d2) hash path 0)
          (\<lambda>(c3, w3, _). Ret (allow (d2\<lparr>mo_cache := c3, mo_whitelist := w3\<rparr>)))
      else if daemon_is_learning_mode (wo_config wo) then
        bind_outcome (remember wo (en_malloc_ok env) hash path d2) (\<lambda>d3. Ret (allow d3))
      else bind_outcome
        (ask_user_permission (wo_config wo) env path hash (ev_pid ev) is_so (mo_ipc d2))
        (\<lambda>(sv3, decision).
           let d3 = d2\<lparr>mo_ipc := sv3\<rparr> in
           if 0 \<le> decision then
             (if decision = 1 then
                bind_outcome (remember wo (en_malloc_ok env) hash path d3) (\<lambda>d4. Ret (allow d4))
              else Ret (allow d3))
           else Ret (deny d3))))"

lemma handle_exec_judge:
  "handle_exec_perm_event wo ev env d =
     (case subject True wo env of
        None \<Rightarrow> Ret (fanotify_allow (en_write_ok env) (ev_fd ev) d)
      | Some (path, hash) \<Rightarrow> judge wo ev env False path hash d)"
proof (cases "get_path_from_fd env PATH_MAX")
  case None
  then show ?thesis by (simp add: handle_exec_perm_event_def subject_def Let_def)
next
  case (Some path)
  obtain f1 elf where elf: "is_elf_file (en_file env) = (f1, elf)" by fastforce
  show ?thesis
    using Some elf
    by (cases "snd (hash_fd (wo_sha wo) f1)")
      (simp_all add: handle_exec_perm_event_def subject_def judge_def Let_def)
qed

lemma handle_open_judge:
  "handle_open_perm_event wo ev env d =
     (case subject False wo env of
        None \<Rightarrow> Ret (fanotify_allow (en_write_ok env) (ev_fd ev) d)
      | Some (path, hash) \<Rightarrow> judge wo ev env True path hash d)"
proof (cases "get_path_from_fd env PATH_MAX")
  case None
  then show ?thesis by (simp add: handle_open_perm_event_def subject_def Let_def)
next
  case (Some path)
  obtain f1 elf where elf: "is_elf_file (en_file env) = (f1, elf)" by fastforce
  show ?thesis
    using Some elf
    by (cases "snd (hash_fd (wo_sha wo) f1)")
      (simp_all add: handle_open_perm_event_def subject_def judge_def Let_def)
qed

section \<open>The ruling\<close>

text \<open>What the handlers assume between events; \<open>tbl\<close> is the meaning of SQLite's state.\<close>

definition mo_ok :: "('db \<Rightarrow> string \<rightharpoonup> whitelist_row) \<Rightarrow> ('c, 'db) world \<Rightarrow> 'db monitor \<Rightarrow> bool" where
  "mo_ok tbl wo d \<longleftrightarrow> cache_wf (mo_cache d) \<and> ipc_idle (mo_ipc d) \<and> sqlite_spec (wo_sql wo) tbl"

definition mo_cached :: "'db monitor \<Rightarrow> string set" where
  "mo_cached d = cache_members (mo_cache d)"

definition mo_listed :: "('db \<Rightarrow> string \<rightharpoonup> whitelist_row) \<Rightarrow> 'db monitor \<Rightarrow> string set" where
  "mo_listed tbl d = dom (wl_table tbl (mo_whitelist d))"

definition mo_reliable :: "('c, 'db) world \<Rightarrow> 'db monitor \<Rightarrow> bool" where
  "mo_reliable wo d \<longleftrightarrow> sqlite_never_fails (wo_sql wo) \<and> whitelist_ready (mo_whitelist d)"

text \<open>Whether the look-ups find the digest, and what the client's side of a request gives.\<close>

definition known :: "('c, 'db) world \<Rightarrow> 'db monitor \<Rightarrow> string \<Rightarrow> bool" where
  "known wo d hash \<longleftrightarrow> hash \<in> mo_cached d \<or>
     snd (whitelist_check (wo_sql wo) (mo_whitelist d) hash) \<noteq> 0"

definition answer :: "config \<Rightarrow> event_env \<Rightarrow> ipc_server \<Rightarrow> int outcome" where
  "answer g env sv =
     (if ipc_has_client sv
      then expected_result (sv_next_request_id sv) (en_gui env) (daemon_get_gui_timeout g)
      else Ret LEXEC_RESPONSE_NO_CLIENT)"

text \<open>The verdict on a judged event, and whether the digest is to be recorded.\<close>

definition ruling :: "config \<Rightarrow> bool \<Rightarrow> int outcome \<Rightarrow> (verdict \<times> bool) outcome" where
  "ruling g is_known reply =
     (if is_known then Ret (Allow, False)
      else if daemon_is_learning_mode g then Ret (Allow, True)
      else bind_outcome reply (\<lambda>r.
        Ret (if 0 \<le> decision_of g r then Allow else Deny, decision_of g r = 1)))"

text \<open>
  What one judged event does to the state, given the verdict, whether the digest is recorded
  and whether nothing is asked (\<open>quiet\<close>).
\<close>

definition judged :: "('db \<Rightarrow> string \<rightharpoonup> whitelist_row) \<Rightarrow> ('c, 'db) world \<Rightarrow> fan_event \<Rightarrow> event_env \<Rightarrow>
    string \<Rightarrow> verdict \<Rightarrow> bool \<Rightarrow> bool \<Rightarrow> 'db monitor \<Rightarrow> 'db monitor \<Rightarrow> bool" where
  "judged tbl wo ev env hash v keep quiet d d' \<longleftrightarrow>
     mo_ok tbl wo d' \<and> (quiet \<longrightarrow> mo_ipc d' = mo_ipc d) \<and>
     mo_answers d' = mo_answers d @ (if en_write_ok env then [(ev_fd ev, v)] else []) \<and>
     mo_closed d' = mo_closed d \<and> g_running d' = g_running d \<and>
     g_monitor_shared_libs d' = g_monitor_shared_libs d \<and>
     mo_listed tbl d \<subseteq> mo_listed tbl d' \<and>
     mo_listed tbl d' \<subseteq> mo_listed tbl d \<union> (if keep then {hash} else {}) \<and>
     mo_cached d \<subseteq> mo_cached d' \<and>
     mo_cached d' \<subseteq> mo_cached d \<union> (if known wo d hash \<or> keep then {hash} else {}) \<and>
     (mo_reliable wo d \<longrightarrow> mo_reliable wo d' \<and>
        (keep \<longrightarrow> hash \<in> mo_listed tbl d') \<and>
        (mo_cached d \<subseteq> mo_listed tbl d \<longrightarrow> mo_cached d' \<subseteq> mo_listed tbl d'))"

lemma monitor_frames [simp]:
  "mo_cache (fanotify_allow b fd d) = mo_cache d" "mo_whitelist (fanotify_allow b fd d) = mo_whitelist d"
  "mo_ipc (fanotify_allow b fd d) = mo_ipc d" "mo_closed (fanotify_allow b fd d) = mo_closed d"
  "g_running (fanotify_allow b fd d) = g_running d"
  "g_monitor_shared_libs (fanotify_allow b fd d) = g_monitor_shared_libs d"
  "mo_answers (fanotify_allow b fd d) = mo_answers d @ (if b then [(fd, Allow)] else [])"
  "mo_cache (fanotify_deny b fd d) = mo_cache d" "mo_whitelist (fanotify_deny b fd d) = mo_whitelist d"
  "mo_ipc (fanotify_deny b fd d) = mo_ipc d" "mo_closed (fanotify_deny b fd d) = mo_closed d"
  "g_running (fanotify_deny b fd d) = g_running d"
  "g_monitor_shared_libs (fanotify_deny b fd d) = g_monitor_shared_libs d"
  "mo_answers (fanotify_deny b fd d) = mo_answers d @ (if b then [(fd, Deny)] else [])"
  by (simp_all add: fanotify_allow_def fanotify_deny_def)

lemma ask_user_answer:
  assumes "ipc_idle sv"
  shows "case answer g env sv of
      Ret r \<Rightarrow> \<exists>sv'. ask_user_permission g env path hash pid is_so sv = Ret (sv', decision_of g r) \<and>
        ipc_idle sv' \<and> (\<not> ipc_has_client sv \<longrightarrow> sv' = sv)
    | Blocked \<Rightarrow> ask_user_permission g env path hash pid is_so sv = Blocked
    | Undef \<Rightarrow> False"
proof (cases "ipc_has_client sv")
  case False
  then show ?thesis
    using assms request_no_client [of sv]
    by (simp add: answer_def ipc_has_client_def ask_user_permission_def)
next
  case True
  then show ?thesis
    using request_outcome [OF assms, where env = "en_gui env" and t = "daemon_get_gui_timeout g"
        and req = "build_request env path hash pid is_so"]
    by (auto simp: answer_def ipc_has_client_def ask_user_permission_def split: outcome.splits)
qed

lemma remember_spec:
  assumes "cache_wf (mo_cache d)" "sqlite_spec (wo_sql wo) tbl" "hex_key hash"
  shows "\<exists>d'. remember wo malloc_ok hash path d = Ret d' \<and> cache_wf (mo_cache d') \<and>
    mo_ipc d' = mo_ipc d \<and> mo_answers d' = mo_answers d \<and> mo_closed d' = mo_closed d \<and>
    g_running d' = g_running d \<and> g_monitor_shared_libs d' = g_monitor_shared_libs d \<and>
    mo_listed tbl d \<subseteq> mo_listed tbl d' \<and> mo_listed tbl d' \<subseteq> mo_listed tbl d \<union> {hash} \<and>
    mo_cached d \<subseteq> mo_cached d' \<and> mo_cached d' \<subseteq> mo_cached d \<union> {hash} \<and>
    (mo_reliable wo d \<longrightarrow> mo_reliable wo d' \<and> hash \<in> mo_listed tbl d')"
proof -
  let ?api = "wo_sql wo" and ?os = "wo_os wo"
  obtain w1 r where wa: "whitelist_add ?api ?os (mo_whitelist d) hash path 0 = (w1, r)" by fastforce
  define c1 where "c1 = fst (cs_add ?api ?os malloc_ok w1 path (mo_cache d) hash)"
  obtain q where ca: "cache_add ?api ?os malloc_ok (mo_cache d) w1 hash path 0 = Ret (c1, w1, q)"
    using cache_add_cs [OF assms(1,3)] c1_def by blast
  have c1: "cache_wf c1" "cache_members (mo_cache d) \<subseteq> cache_members c1"
    "cache_members c1 \<subseteq> cache_members (mo_cache d) \<union> {hash}"
    using cs_add_law [OF assms(1,3), of ?api ?os malloc_ok w1 path c1
        "snd (cs_add ?api ?os malloc_ok w1 path (mo_cache d) hash)"]
    by (auto simp: c1_def split: if_splits)
  have ready: "whitelist_ready w1 = whitelist_ready (mo_whitelist d)"
    using same_handles_ready [OF whitelist_add_frame, of ?api ?os "mo_whitelist d" hash path 0] wa
    by simp
  have succ: "mo_reliable wo d \<Longrightarrow> r = 0"
    using whitelist_add_succeeds [of ?api "mo_whitelist d" ?os hash path 0] wa
    by (simp add: mo_reliable_def)
  have "remember wo malloc_ok hash path d = Ret (d\<lparr>mo_cache := c1, mo_whitelist := w1\<rparr>)"
    using wa ca by (simp add: remember_def Let_def)
  then show ?thesis
    using c1 ready succ whitelist_add_table [OF assms(2) wa]
    by (auto simp: mo_listed_def mo_cached_def mo_reliable_def split: if_splits)
qed

text \<open>After the two look-ups only counters have changed.\<close>

lemma looked_up:
  assumes ok: "mo_ok tbl wo d" and key: "hex_key hash"
    and c1: "c1 = fst (cs_check (mo_cache d) hash)"
    and w2: "whitelist_check (wo_sql wo) (mo_whitelist d) hash = (w2, r)"
  shows "mo_ok tbl wo (d\<lparr>mo_cache := c1\<rparr>)" "mo_ok tbl wo (d\<lparr>mo_cache := c1, mo_whitelist := w2\<rparr>)"
    "cache_wf c1" "cache_members c1 = mo_cached d"
    "wl_table tbl w2 = wl_table tbl (mo_whitelist d)"
    "whitelist_ready w2 = whitelist_ready (mo_whitelist d)"
    "r \<noteq> 0 \<Longrightarrow> hash \<in> mo_listed tbl d"
proof -
  have wf: "cache_wf (mo_cache d)" and spec: "sqlite_spec (wo_sql wo) tbl"
    using ok by (simp_all add: mo_ok_def)
  show c: "cache_wf c1" "cache_members c1 = mo_cached d"
    using cs_check_law [OF wf key, of c1 "snd (cs_check (mo_cache d) hash)"]
    by (simp_all add: c1 mo_cached_def)
  show "mo_ok tbl wo (d\<lparr>mo_cache := c1\<rparr>)" "mo_ok tbl wo (d\<lparr>mo_cache := c1, mo_whitelist := w2\<rparr>)"
    using ok c by (simp_all add: mo_ok_def)
  show "wl_table tbl w2 = wl_table tbl (mo_whitelist d)" "r \<noteq> 0 \<Longrightarrow> hash \<in> mo_listed tbl d"
    using whitelist_check_sound [OF spec w2] by (auto simp: mo_listed_def)
  show "whitelist_ready w2 = whitelist_ready (mo_whitelist d)"
    using same_handles_ready [OF whitelist_check_frame, of "wo_sql wo" "mo_whitelist d" hash] w2 by simp
qed

lemma judge_cached:
  assumes ok: "mo_ok tbl wo d" and key: "hex_key hash" and mem: "hash \<in> mo_cached d"
  shows "\<exists>d'. judge wo ev env is_so path hash d = Ret d' \<and> judged tbl wo ev env hash Allow False True d d'"
proof -
  obtain w2 r where w2: "whitelist_check (wo_sql wo) (mo_whitelist d) hash = (w2, r)" by fastforce
  note l = looked_up [OF ok key refl w2]
  have "cache_check (mo_cache d) hash = Ret (fst (cs_check (mo_cache d) hash), 1)"
    using cache_check_cs [OF _ key, of "mo_cache d"] ok mem by (simp add: mo_ok_def mo_cached_def)
  then show ?thesis using l ok
    by (simp add: judge_def Let_def)
      (auto simp: judged_def mo_ok_def mo_cached_def mo_listed_def mo_reliable_def)
qed

lemma judge_unknown:
  assumes ok: "mo_ok tbl wo d" and key: "hex_key hash" and unk: "\<not> known wo d hash"
  obtains d2 where "mo_ok tbl wo d2" "mo_ipc d2 = mo_ipc d" "mo_answers d2 = mo_answers d"
    "mo_closed d2 = mo_closed d" "g_running d2 = g_running d"
    "g_monitor_shared_libs d2 = g_monitor_shared_libs d" "mo_listed tbl d2 = mo_listed tbl d"
    "mo_cached d2 = mo_cached d" "mo_reliable wo d2 = mo_reliable wo d"
    "judge wo ev env is_so path hash d =
      (if daemon_is_learning_mode (wo_config wo) then
         bind_outcome (remember wo (en_malloc_ok env) hash path d2)
           (\<lambda>d3. Ret (fanotify_allow (en_write_ok env) (ev_fd ev) d3))
       else bind_outcome
         (ask_user_permission (wo_config wo) env path hash (ev_pid ev) is_so (mo_ipc d2))
         (\<lambda>(sv3, decision).
           if 0 \<le> decision then
             (if decision = 1 then
                bind_outcome (remember wo (en_malloc_ok env) hash path (d2\<lparr>mo_ipc := sv3\<rparr>))
                  (\<lambda>d4. Ret (fanotify_allow (en_write_ok env) (ev_fd ev) d4))
              else Ret (fanotify_allow (en_write_ok env) (ev_fd ev) (d2\<lparr>mo_ipc := sv3\<rparr>)))
           else Ret (fanotify_deny (en_write_ok env) (ev_fd ev) (d2\<lparr>mo_ipc := sv3\<rparr>))))"
proof -
  obtain w2 r where w2: "whitelist_check (wo_sql wo) (mo_whitelist d) hash = (w2, r)" by fastforce
  note l = looked_up [OF ok key refl w2]
  have chk: "cache_check (mo_cache d) hash = Ret (fst (cs_check (mo_cache d) hash), 0)"
    using cache_check_cs [OF _ key, of "mo_cache d"] ok unk by (simp add: mo_ok_def mo_cached_def known_def)
  show thesis
  proof (rule that [of "d\<lparr>mo_cache := fst (cs_check (mo_cache d) hash), mo_whitelist := w2\<rparr>"])
  qed (use l chk w2 unk in \<open>simp_all add: judge_def Let_def known_def mo_listed_def mo_cached_def mo_reliable_def\<close>)
qed

lemma judge_listed:
  assumes ok: "mo_ok tbl wo d" and key: "hex_key hash" and unk: "hash \<notin> mo_cached d" "known wo d hash"
  shows "\<exists>d'. judge wo ev env is_so path hash d = Ret d' \<and> judged tbl wo ev env hash Allow False True d d'"
proof -
  let ?api = "wo_sql wo" and ?os = "wo_os wo" and ?m = "en_malloc_ok env"
  obtain w2 r where w2: "whitelist_check ?api (mo_whitelist d) hash = (w2, r)" by fastforce
  have r: "r \<noteq> 0" using unk w2 by (simp add: known_def)
  define c1 where "c1 = fst (cs_check (mo_cache d) hash)"
  note l = looked_up [OF ok key c1_def w2]
  define c3 where "c3 = fst (cs_add ?api ?os ?m w2 path c1 hash)"
  have chk: "cache_check (mo_cache d) hash = Ret (c1, 0)"
    using cache_check_cs [OF _ key, of "mo_cache d"] ok unk by (simp add: mo_ok_def mo_cached_def c1_def)
  obtain q where add: "cache_add ?api ?os ?m c1 w2 hash path 0 = Ret (c3, w2, q)"
    using cache_add_cs [OF l(3) key] c3_def by blast
  have c3: "cache_wf c3" "mo_cached d \<subseteq> cache_members c3" "cache_members c3 \<subseteq> mo_cached d \<union> {hash}"
    using cs_add_law [OF l(3) key, of ?api ?os ?m w2 path c3 "snd (cs_add ?api ?os ?m w2 path c1 hash)"]
    by (auto simp: c3_def l(4) split: if_splits)
  let ?d = "d\<lparr>mo_cache := c3, mo_whitelist := w2\<rparr>"
  have "judge wo ev env is_so path hash d = Ret (fanotify_allow (en_write_ok env) (ev_fd ev) ?d)"
    using chk w2 r add by (simp add: judge_def Let_def)
  moreover have "mo_cached ?d \<subseteq> mo_listed tbl ?d" if "mo_cached d \<subseteq> mo_listed tbl d"
    using that c3(3) l(5) l(7) [OF r] by (auto simp: mo_cached_def mo_listed_def)
  ultimately show ?thesis
    using ok c3 l(5,6) unk(2) by (auto simp: judged_def mo_ok_def mo_cached_def mo_listed_def mo_reliable_def)
qed

lemma judged_remember:
  assumes ok: "mo_ok tbl wo d" "mo_ok tbl wo d2" and key: "hex_key hash" and
    same: "mo_answers d2 = mo_answers d" "mo_closed d2 = mo_closed d" "g_running d2 = g_running d"
      "g_monitor_shared_libs d2 = g_monitor_shared_libs d" "mo_listed tbl d2 = mo_listed tbl d"
      "mo_cached d2 = mo_cached d" "mo_reliable wo d2 = mo_reliable wo d"
      "quiet \<Longrightarrow> mo_ipc d2 = mo_ipc d"
  shows "\<exists>d'. bind_outcome (remember wo m hash path d2)
      (\<lambda>d3. Ret (fanotify_allow (en_write_ok env) (ev_fd ev) d3)) = Ret d' \<and>
    judged tbl wo ev env hash Allow True quiet d d'"
proof -
  obtain d3 where d3: "remember wo m hash path d2 = Ret d3" "cache_wf (mo_cache d3)"
    "mo_ipc d3 = mo_ipc d2" "mo_answers d3 = mo_answers d2" "mo_closed d3 = mo_closed d2"
    "g_running d3 = g_running d2" "g_monitor_shared_libs d3 = g_monitor_shared_libs d2"
    "mo_listed tbl d2 \<subseteq> mo_listed tbl d3" "mo_listed tbl d3 \<subseteq> mo_listed tbl d2 \<union> {hash}"
    "mo_cached d2 \<subseteq> mo_cached d3" "mo_cached d3 \<subseteq> mo_cached d2 \<union> {hash}"
    "mo_reliable wo d2 \<Longrightarrow> mo_reliable wo d3 \<and> hash \<in> mo_listed tbl d3"
    using remember_spec [of d2 wo tbl hash m path] ok key unfolding mo_ok_def by blast
  let ?d = "fanotify_allow (en_write_ok env) (ev_fd ev) d3"
  have "mo_ok tbl wo ?d" using ok d3(2,3) by (simp add: mo_ok_def)
  moreover have f: "mo_listed tbl ?d = mo_listed tbl d3" "mo_cached ?d = mo_cached d3"
    "mo_reliable wo ?d = mo_reliable wo d3"
    by (simp_all add: mo_listed_def mo_cached_def mo_reliable_def)
  moreover have "mo_cached d3 \<subseteq> mo_listed tbl d3" if "mo_reliable wo d" "mo_cached d \<subseteq> mo_listed tbl d"
  proof -
    have "mo_cached d3 \<subseteq> mo_listed tbl d \<union> {hash}" using d3(11) same(6) that(2) by blast
    then show ?thesis using d3(8,12) same(5,7) that(1) by blast
  qed
  ultimately have "judged tbl wo ev env hash Allow True quiet d ?d"
    using d3 same unfolding judged_def f by simp
  then show ?thesis using d3(1) by simp
qed

lemma judged_plain:
  assumes "mo_ok tbl wo d2" and
    "mo_closed d2 = mo_closed d" "g_running d2 = g_running d"
    "g_monitor_shared_libs d2 = g_monitor_shared_libs d" "mo_listed tbl d2 = mo_listed tbl d"
    "mo_cached d2 = mo_cached d" "mo_reliable wo d2 = mo_reliable wo d"
    "mo_answers d2 = mo_answers d @ (if en_write_ok env then [(ev_fd ev, v)] else [])"
    "quiet \<Longrightarrow> mo_ipc d2 = mo_ipc d"
  shows "judged tbl wo ev env hash v False quiet d d2"
  using assms by (auto simp: judged_def)

lemma judge_ruling:
  assumes ok: "mo_ok tbl wo d" and key: "hex_key hash"
  shows "case ruling (wo_config wo) (known wo d hash) (answer (wo_config wo) env (mo_ipc d)) of
      Ret (v, keep) \<Rightarrow> \<exists>d'. judge wo ev env is_so path hash d = Ret d' \<and>
        judged tbl wo ev env hash v keep (known wo d hash \<or> daemon_is_learning_mode (wo_config wo) \<or>
          \<not> ipc_has_client (mo_ipc d)) d d'
    | Blocked \<Rightarrow> judge wo ev env is_so path hash d = Blocked
    | Undef \<Rightarrow> False"
proof (cases "known wo d hash")
  case True
  then show ?thesis
    using judge_listed [OF ok key] judge_cached [OF ok key]
    by (cases "hash \<in> mo_cached d") (simp_all add: ruling_def)
next
  case False
  obtain d2 where ok2: "mo_ok tbl wo d2" and ipc: "mo_ipc d2 = mo_ipc d" and
    same: "mo_answers d2 = mo_answers d" "mo_closed d2 = mo_closed d" "g_running d2 = g_running d"
    "g_monitor_shared_libs d2 = g_monitor_shared_libs d" "mo_listed tbl d2 = mo_listed tbl d"
    "mo_cached d2 = mo_cached d" "mo_reliable wo d2 = mo_reliable wo d" and
    run: "judge wo ev env is_so path hash d =
      (if daemon_is_learning_mode (wo_config wo) then
         bind_outcome (remember wo (en_malloc_ok env) hash path d2)
           (\<lambda>d3. Ret (fanotify_allow (en_write_ok env) (ev_fd ev) d3))
       else bind_outcome
         (ask_user_permission (wo_config wo) env path hash (ev_pid ev) is_so (mo_ipc d2))
         (\<lambda>(sv3, decision).
           if 0 \<le> decision then
             (if decision = 1 then
                bind_outcome (remember wo (en_malloc_ok env) hash path (d2\<lparr>mo_ipc := sv3\<rparr>))
                  (\<lambda>d4. Ret (fanotify_allow (en_write_ok env) (ev_fd ev) d4))
              else Ret (fanotify_allow (en_write_ok env) (ev_fd ev) (d2\<lparr>mo_ipc := sv3\<rparr>)))
           else Ret (fanotify_deny (en_write_ok env) (ev_fd ev) (d2\<lparr>mo_ipc := sv3\<rparr>))))"
    by (rule judge_unknown [OF ok key False])
  have idle: "ipc_idle (mo_ipc d)" using ok by (simp add: mo_ok_def)
  have same3: "mo_ok tbl wo (d2\<lparr>mo_ipc := sv\<rparr>)" "mo_listed tbl (d2\<lparr>mo_ipc := sv\<rparr>) = mo_listed tbl d"
    "mo_cached (d2\<lparr>mo_ipc := sv\<rparr>) = mo_cached d" "mo_reliable wo (d2\<lparr>mo_ipc := sv\<rparr>) = mo_reliable wo d"
    if "ipc_idle sv" for sv
    using that ok2 same by (simp_all add: mo_ok_def mo_listed_def mo_cached_def mo_reliable_def)
  show ?thesis
  proof (cases "daemon_is_learning_mode (wo_config wo)")
    case True
    then show ?thesis
      using run False judged_remember [OF ok ok2 key same ipc, where m = "en_malloc_ok env" and path = path
          and env = env and ev = ev and quiet = True]
      by (simp add: ruling_def)
  next
    case learn: False
    note ask = ask_user_answer [OF idle, of "wo_config wo" env path hash "ev_pid ev" is_so]
    show ?thesis
    proof (cases "answer (wo_config wo) env (mo_ipc d)")
      case (Ret r)
      then obtain sv where sv: "ipc_idle sv"
        "ask_user_permission (wo_config wo) env path hash (ev_pid ev) is_so (mo_ipc d2) =
          Ret (sv, decision_of (wo_config wo) r)" "\<not> ipc_has_client (mo_ipc d) \<Longrightarrow> sv = mo_ipc d"
        using ask ipc by auto
      note rem = judged_remember [OF ok same3(1) [OF sv(1)] key, where m = "en_malloc_ok env"
          and path = path and env = env and ev = ev and quiet = "\<not> ipc_has_client (mo_ipc d)"]
      have "judged tbl wo ev env hash Allow False (\<not> ipc_has_client (mo_ipc d)) d (fanotify_allow (en_write_ok env) (ev_fd ev) (d2\<lparr>mo_ipc := sv\<rparr>))"
        and "judged tbl wo ev env hash Deny False (\<not> ipc_has_client (mo_ipc d)) d (fanotify_deny (en_write_ok env) (ev_fd ev) (d2\<lparr>mo_ipc := sv\<rparr>))"
        by (rule judged_plain; use same same3 [OF sv(1)] sv(3) in
            \<open>simp add: mo_ok_def mo_listed_def mo_cached_def mo_reliable_def\<close>)+
      then show ?thesis
        using rem same same3 [OF sv(1)] run False learn sv(2,3) Ret by (auto simp: ruling_def)
    next
      case Blocked
      then show ?thesis using ask run False learn ipc by (simp add: ruling_def)
    next
      case Undef
      then show ?thesis using ask by simp
    qed
  qed
qed

section \<open>The two handlers and the body of the loop\<close>

lemma subject_key:
  assumes "sha256_spec (wo_sha wo) fed H" and "subject is_exec wo env = Some (path, hash)"
  shows "hash = bytes_to_hex (H (fd_content (en_file env)))" "hex_key hash"
    "\<exists>target. en_target env = Some target \<and> path = take 4095 target"
    "\<not> is_path_excluded (wo_config wo) path" "is_exec \<or> is_shared_library path"
    "snd (is_elf_file (en_file env))"
proof -
  define f1 where "f1 = fst (is_elf_file (en_file env))"
  have "snd (is_elf_file (en_file env))" and h: "snd (hash_fd (wo_sha wo) f1) = Some hash"
    using assms(2) by (auto simp: subject_def f1_def split: option.splits if_splits)
  then have f1: "is_elf_file (en_file env) = (f1, True)" by (simp add: f1_def prod_eq_iff)
  obtain f2 where f2: "hash_fd (wo_sha wo) f1 = (f2, Some hash)" using h by (metis prod.collapse)
  show hash: "hash = bytes_to_hex (H (fd_content (en_file env)))"
    using hash_fd_content [OF assms(1) f2] is_elf_file_frame [OF f1] by simp
  then show "hex_key hash" using sha256_spec_length [OF assms(1)] by (auto simp: hex_key_def)
  show "snd (is_elf_file (en_file env))" using f1 by simp
  show "\<exists>target. en_target env = Some target \<and> path = take 4095 target"
    "\<not> is_path_excluded (wo_config wo) path" "is_exec \<or> is_shared_library path"
    using assms(2)
    by (auto simp: subject_def get_path_from_fd_def PATH_MAX_def split: option.splits if_splits)
qed

definition subject_hash :: "bool \<Rightarrow> ('c, 'db) world \<Rightarrow> event_env \<Rightarrow> string" where
  "subject_hash is_exec wo env = (case subject is_exec wo env of None \<Rightarrow> [] | Some (path, hash) \<Rightarrow> hash)"

text \<open>What a handler decides: \<open>is_exec\<close> tells the two apart.\<close>

definition handler_ruling ::
  "bool \<Rightarrow> ('c, 'db) world \<Rightarrow> event_env \<Rightarrow> 'db monitor \<Rightarrow> (verdict \<times> bool) outcome" where
  "handler_ruling is_exec wo env d =
     (case subject is_exec wo env of
        None \<Rightarrow> Ret (Allow, False)
      | Some (path, hash) \<Rightarrow>
          ruling (wo_config wo) (known wo d hash) (answer (wo_config wo) env (mo_ipc d)))"

definition handler ::
  "bool \<Rightarrow> ('c, 'db) world \<Rightarrow> fan_event \<Rightarrow> event_env \<Rightarrow> 'db monitor \<Rightarrow> 'db monitor outcome" where
  "handler is_exec = (if is_exec then handle_exec_perm_event else handle_open_perm_event)"

definition mo_inv ::
  "('c \<Rightarrow> u8 list) \<Rightarrow> (u8 list \<Rightarrow> u8 list) \<Rightarrow> ('db \<Rightarrow> string \<rightharpoonup> whitelist_row) \<Rightarrow> ('c, 'db) world \<Rightarrow>
   'db monitor \<Rightarrow> bool" where
  "mo_inv fed H tbl wo d \<longleftrightarrow> sha256_spec (wo_sha wo) fed H \<and> mo_ok tbl wo d"

text \<open>Whether the user is consulted.\<close>

definition consults :: "bool \<Rightarrow> ('c, 'db) world \<Rightarrow> event_env \<Rightarrow> 'db monitor \<Rightarrow> bool" where
  "consults is_exec wo env d \<longleftrightarrow>
     (case subject is_exec wo env of
        None \<Rightarrow> False
      | Some (path, hash) \<Rightarrow> \<not> known wo d hash \<and> \<not> daemon_is_learning_mode (wo_config wo))"

lemma handler_spec:
  assumes "mo_inv fed H tbl wo d"
  shows "case handler_ruling is_exec wo env d of
      Ret (v, keep) \<Rightarrow> \<exists>d'. handler is_exec wo ev env d = Ret d' \<and>
        judged tbl wo ev env (subject_hash is_exec wo env) v keep (\<not> consults is_exec wo env d \<or> \<not> ipc_has_client (mo_ipc d)) d d'
    | Blocked \<Rightarrow> handler is_exec wo ev env d = Blocked
    | Undef \<Rightarrow> False"
proof -
  have ok: "mo_ok tbl wo d" and sha: "sha256_spec (wo_sha wo) fed H"
    using assms by (simp_all add: mo_inv_def)
  have run: "handler is_exec wo ev env d =
     (case subject is_exec wo env of
        None \<Rightarrow> Ret (fanotify_allow (en_write_ok env) (ev_fd ev) d)
      | Some (path, hash) \<Rightarrow> judge wo ev env (\<not> is_exec) path hash d)"
    by (cases is_exec) (simp_all add: handler_def handle_exec_judge handle_open_judge split: option.split)
  show ?thesis
  proof (cases "subject is_exec wo env")
    case None
    have "judged tbl wo ev env [] Allow False True d (fanotify_allow (en_write_ok env) (ev_fd ev) d)"
      by (rule judged_plain)
        (use ok in \<open>simp_all add: mo_ok_def mo_listed_def mo_cached_def mo_reliable_def\<close>)
    then show ?thesis using None run by (simp add: handler_ruling_def subject_hash_def consults_def)
  next
    case (Some ph)
    obtain path hash where ph: "ph = (path, hash)" by fastforce
    have key: "hex_key hash" using subject_key(2) [OF sha] Some ph by blast
    have eqs: "subject_hash is_exec wo env = hash"
      "handler is_exec wo ev env d = judge wo ev env (\<not> is_exec) path hash d"
      "handler_ruling is_exec wo env d =
        ruling (wo_config wo) (known wo d hash) (answer (wo_config wo) env (mo_ipc d))"
      "(\<not> consults is_exec wo env d \<or> \<not> ipc_has_client (mo_ipc d)) =
        (known wo d hash \<or> daemon_is_learning_mode (wo_config wo) \<or> \<not> ipc_has_client (mo_ipc d))"
      using Some ph run by (simp_all add: handler_ruling_def subject_hash_def consults_def)
    show ?thesis unfolding eqs by (rule judge_ruling [OF ok key])
  qed
qed

text \<open>Events that ask for a permission, and the ruling on an event by its mask.\<close>

definition asks_exec :: "fan_event \<Rightarrow> bool" where
  "asks_exec ev \<longleftrightarrow> ev_mask ev AND FAN_OPEN_EXEC_PERM \<noteq> 0"

definition asks :: "fan_event \<Rightarrow> bool" where
  "asks ev \<longleftrightarrow> asks_exec ev \<or> ev_mask ev AND FAN_OPEN_PERM \<noteq> 0"

text \<open>What happened on the sockets between two events.\<close>

definition met :: "event_env \<Rightarrow> 'db monitor \<Rightarrow> 'db monitor" where
  "met env d = d\<lparr>mo_ipc := fold ipc_env_step (en_meanwhile env) (mo_ipc d)\<rparr>"

lemma met_frame [simp]:
  "mo_cached (met env d) = mo_cached d" "mo_listed tbl (met env d) = mo_listed tbl d"
  "mo_reliable wo (met env d) = mo_reliable wo d" "mo_answers (met env d) = mo_answers d"
  "mo_closed (met env d) = mo_closed d" "g_running (met env d) = g_running d"
  "g_monitor_shared_libs (met env d) = g_monitor_shared_libs d"
  "known wo (met env d) h = known wo d h" "consults x wo env' (met env d) = consults x wo env' d"
  by (simp_all add: met_def mo_cached_def mo_listed_def mo_reliable_def known_def consults_def
      split: option.split)

lemma met_inv: "mo_inv fed H tbl wo d \<Longrightarrow> mo_inv fed H tbl wo (met env d)"
  by (simp add: mo_inv_def mo_ok_def met_def fold_env_step_idle)

lemma handle_event_handler:
  "handle_event wo ev env d =
     bind_outcome (if asks ev then handler (asks_exec ev) wo ev env (met env d) else Ret (met env d))
       (\<lambda>d'. Ret (close_event_fd ev d'))"
  by (simp add: handle_event_def asks_def asks_exec_def handler_def met_def Let_def)

lemma close_event_fd_frame [simp]:
  "mo_cached (close_event_fd ev d) = mo_cached d" "mo_listed tbl (close_event_fd ev d) = mo_listed tbl d"
  "mo_reliable wo (close_event_fd ev d) = mo_reliable wo d"
  "mo_ok tbl wo (close_event_fd ev d) = mo_ok tbl wo d" "mo_ipc (close_event_fd ev d) = mo_ipc d"
  "mo_answers (close_event_fd ev d) = mo_answers d" "g_running (close_event_fd ev d) = g_running d"
  "g_monitor_shared_libs (close_event_fd ev d) = g_monitor_shared_libs d"
  "mo_closed (close_event_fd ev d) = mo_closed d @ (if 0 \<le> ev_fd ev then [ev_fd ev] else [])"
  by (simp_all add: close_event_fd_def mo_cached_def mo_listed_def mo_reliable_def mo_ok_def)

text \<open>The effect of one event on everything the rest of the daemon can see.\<close>

definition handled :: "('db \<Rightarrow> string \<rightharpoonup> whitelist_row) \<Rightarrow> ('c, 'db) world \<Rightarrow> fan_event \<Rightarrow> event_env \<Rightarrow>
    verdict \<Rightarrow> bool \<Rightarrow> 'db monitor \<Rightarrow> 'db monitor \<Rightarrow> bool" where
  "handled tbl wo ev env v keep d d' \<longleftrightarrow>
     mo_answers d' = mo_answers d @ (if asks ev \<and> en_write_ok env then [(ev_fd ev, v)] else []) \<and>
     mo_closed d' = mo_closed d @ (if 0 \<le> ev_fd ev then [ev_fd ev] else []) \<and>
     g_running d' = g_running d \<and> g_monitor_shared_libs d' = g_monitor_shared_libs d \<and>
     (\<not> (asks ev \<and> consults (asks_exec ev) wo env d \<and> ipc_has_client (mo_ipc (met env d))) \<longrightarrow> mo_ipc d' = mo_ipc (met env d)) \<and>
     mo_listed tbl d \<subseteq> mo_listed tbl d' \<and>
     mo_listed tbl d' \<subseteq> mo_listed tbl d \<union>
       (if keep then {subject_hash (asks_exec ev) wo env} else {}) \<and>
     mo_cached d \<subseteq> mo_cached d' \<and>
     (mo_reliable wo d \<longrightarrow> mo_reliable wo d' \<and>
        (keep \<longrightarrow> subject_hash (asks_exec ev) wo env \<in> mo_listed tbl d') \<and>
        (mo_cached d \<subseteq> mo_listed tbl d \<longrightarrow> mo_cached d' \<subseteq> mo_listed tbl d'))"

definition event_ruling ::
  "('c, 'db) world \<Rightarrow> fan_event \<Rightarrow> event_env \<Rightarrow> 'db monitor \<Rightarrow> (verdict \<times> bool) outcome" where
  "event_ruling wo ev env d =
     (if asks ev then handler_ruling (asks_exec ev) wo env (met env d) else Ret (Allow, False))"

lemma handle_event_spec:
  assumes inv: "mo_inv fed H tbl wo d"
  shows "case event_ruling wo ev env d of
      Ret (v, keep) \<Rightarrow> \<exists>d'. handle_event wo ev env d = Ret d' \<and> mo_inv fed H tbl wo d' \<and>
        handled tbl wo ev env v keep d d'
    | Blocked \<Rightarrow> handle_event wo ev env d = Blocked
    | Undef \<Rightarrow> False"
proof (cases "asks ev")
  case False
  have "mo_inv fed H tbl wo (close_event_fd ev (met env d))"
    using met_inv [OF inv, of env] by (simp add: mo_inv_def)
  moreover have "handled tbl wo ev env Allow False d (close_event_fd ev (met env d))"
    using False
    by (simp add: handled_def)
  ultimately show ?thesis using False by (simp add: handle_event_handler event_ruling_def)
next
  case True
  note spec = handler_spec [OF met_inv [OF inv, of env], where is_exec = "asks_exec ev" and env = env and ev = ev]
  have sha: "sha256_spec (wo_sha wo) fed H" using inv by (simp add: mo_inv_def)
  have close: "mo_inv fed H tbl wo (close_event_fd ev d') \<and> handled tbl wo ev env v keep d (close_event_fd ev d')"
    if "judged tbl wo ev env (subject_hash (asks_exec ev) wo env) v keep
        (\<not> consults (asks_exec ev) wo env d \<or> \<not> ipc_has_client (mo_ipc (met env d))) (met env d) d'" for v keep d'
    using that sha True
    by (simp add: judged_def handled_def mo_inv_def)
  show ?thesis
    using spec close True
    by (auto simp: handle_event_handler event_ruling_def split: outcome.splits)
qed

end
