(* ===== verification/Event_Loop.thy ===== *)
theory Event_Loop
  imports Policy
begin

text \<open>
  The two loops of \<open>fanotify_event_loop\<close> and what holds along every run of them. The
  locale \<open>event_step\<close> is the contract between the loop and the body that handles one event;
  it is interpreted on both handlers and on the loop's body. \<open>loop_run\<close> reduces the loops to
  a run of the body over the events accepted from the buffers.
\<close>

section \<open>Runs\<close>

primrec run_events ::
  "('e \<Rightarrow> 'n \<Rightarrow> 'd \<Rightarrow> 'd outcome) \<Rightarrow> ('e \<times> 'n) list \<Rightarrow> 'd \<Rightarrow> 'd outcome" where
  "run_events handle [] d = Ret d"
| "run_events handle (x # xs) d = bind_outcome (handle (fst x) (snd x) d) (run_events handle xs)"

lemma run_events_append:
  "run_events handle (xs @ ys) d = bind_outcome (run_events handle xs d) (run_events handle ys)"
proof (induction xs arbitrary: d)
  case Nil
  then show ?case by simp
next
  case (Cons x xs)
  then show ?case by (cases "handle (fst x) (snd x) d") simp_all
qed

section \<open>The contract of a handler\<close>

locale event_step =
  fixes wants :: "fan_event \<Rightarrow> bool"
    and invar :: "'d \<Rightarrow> bool"
    and answers_of :: "'d \<Rightarrow> (int \<times> verdict) list"
    and handle :: "fan_event \<Rightarrow> event_env \<Rightarrow> 'd \<Rightarrow> 'd outcome"
  assumes step_answers:
      "invar d \<Longrightarrow> handle ev env d = Ret d' \<Longrightarrow>
       invar d' \<and> (\<exists>v. answers_of d' = answers_of d @ (if wants ev \<and> en_write_ok env then [(ev_fd ev, v)] else []))"
    and step_defined: "invar d \<Longrightarrow> handle ev env d \<noteq> Undef"
begin

text \<open>Every event that wants an answer gets one, in the order of the events.\<close>

lemma run_answers:
  assumes "invar d" "run_events handle evs d = Ret d'"
  shows "invar d' \<and> (\<exists>new. answers_of d' = answers_of d @ new \<and>
    map fst new = map (\<lambda>(ev, env). ev_fd ev) (filter (\<lambda>(ev, env). wants ev \<and> en_write_ok env) evs))"
  using assms
proof (induction evs arbitrary: d)
  case Nil
  then show ?case by simp
next
  case (Cons x evs)
  obtain ev env where x: "x = (ev, env)" by fastforce
  with Cons.prems obtain d1 where d1: "handle ev env d = Ret d1" "run_events handle evs d1 = Ret d'"
    by (auto simp: bind_outcome_Ret_iff)
  obtain v where i: "invar d1"
    and v: "answers_of d1 = answers_of d @ (if wants ev \<and> en_write_ok env then [(ev_fd ev, v)] else [])"
    using step_answers [OF Cons.prems(1) d1(1)] by blast
  obtain new where "invar d'" "answers_of d' = answers_of d1 @ new"
    "map fst new = map (\<lambda>(ev, env). ev_fd ev) (filter (\<lambda>(ev, env). wants ev \<and> en_write_ok env) evs)"
    using Cons.IH [OF i d1(2)] by blast
  then show ?case using v x by auto
qed

lemma run_defined: "invar d \<Longrightarrow> run_events handle evs d \<noteq> Undef"
proof (induction evs arbitrary: d)
  case Nil
  then show ?case by simp
next
  case (Cons x evs)
  show ?case
  proof (cases "handle (fst x) (snd x) d")
    case (Ret d1)
    then have "invar d1" using step_answers [OF Cons.prems] by blast
    then show ?thesis using Cons.IH Ret by simp
  qed (use step_defined [OF Cons.prems, of "fst x" "snd x"] in simp_all)
qed

text \<open>A property of the state that every step keeps holds after the run.\<close>

lemma run_keeps:
  assumes "invar d" "run_events handle evs d = Ret d'"
    and "\<And>s s'. R s s" "\<And>s s' s''. R s s' \<Longrightarrow> R s' s'' \<Longrightarrow> R s s''"
    and "\<And>s ev env s'. (ev, env) \<in> set evs \<Longrightarrow> invar s \<Longrightarrow> handle ev env s = Ret s' \<Longrightarrow> R s s'"
  shows "R d d'"
  using assms(1,2,5)
proof (induction evs arbitrary: d)
  case Nil
  then show ?case using assms(3) by simp
next
  case (Cons x evs)
  then obtain d1 where d1: "handle (fst x) (snd x) d = Ret d1" "run_events handle evs d1 = Ret d'"
    by (auto simp: bind_outcome_Ret_iff)
  have "invar d1" using step_answers [OF Cons.prems(1) d1(1)] by blast
  then have "R d1 d'" using Cons.IH d1(2) Cons.prems(3) by (meson list.set_intros(2))
  moreover have "R d d1" using Cons.prems(3) [of "fst x" "snd x"] Cons.prems(1) d1(1) by simp
  ultimately show ?case using assms(4) by blast
qed

end

section \<open>The handlers and the body of the loop keep it\<close>

lemma handler_step:
  assumes "mo_inv fed H tbl wo d"
  shows "handler is_exec wo ev env d \<noteq> Undef"
    and "handler is_exec wo ev env d = Ret d' \<Longrightarrow> mo_inv fed H tbl wo d' \<and>
      (\<exists>v. mo_answers d' = mo_answers d @ (if en_write_ok env then [(ev_fd ev, v)] else []))"
  using handler_spec [OF assms, where is_exec = is_exec and env = env and ev = ev] assms
  by (auto simp: judged_def mo_inv_def split: outcome.splits)

lemma handle_event_ruled:
  assumes "mo_inv fed H tbl wo d" "handle_event wo ev env d = Ret d'"
  obtains v keep where "event_ruling wo ev env d = Ret (v, keep)" "mo_inv fed H tbl wo d'"
    "handled tbl wo ev env v keep d d'"
  using handle_event_spec [OF assms(1), where env = env and ev = ev] assms(2) that
  by (auto split: outcome.splits)

lemma handle_event_defined: "mo_inv fed H tbl wo d \<Longrightarrow> handle_event wo ev env d \<noteq> Undef"
  using handle_event_spec [where fed = fed and H = H and tbl = tbl and wo = wo and d = d and env = env and ev = ev] by (auto split: outcome.splits)

interpretation ex: event_step "\<lambda>_. True" "mo_inv fed H tbl wo" mo_answers "handle_exec_perm_event wo"
  for fed H tbl wo
  by unfold_locales (simp_all add: handler_step [where is_exec = True, unfolded handler_def, simplified])

interpretation op: event_step "\<lambda>_. True" "mo_inv fed H tbl wo" mo_answers "handle_open_perm_event wo"
  for fed H tbl wo
  by unfold_locales (simp_all add: handler_step [where is_exec = False, unfolded handler_def, simplified])

interpretation body: event_step asks "mo_inv fed H tbl wo" mo_answers "handle_event wo"
  for fed H tbl wo
proof
  fix d ev env d'
  assume inv: "mo_inv fed H tbl wo d"
  then show "handle_event wo ev env d \<noteq> Undef" by (rule handle_event_defined)
  assume "handle_event wo ev env d = Ret d'"
  with inv obtain v keep where "mo_inv fed H tbl wo d'" "handled tbl wo ev env v keep d d'"
    by (rule handle_event_ruled)
  then show "mo_inv fed H tbl wo d' \<and> (\<exists>v. mo_answers d' =
      mo_answers d @ (if asks ev \<and> en_write_ok env then [(ev_fd ev, v)] else []))"
    by (auto simp: handled_def)
qed

section \<open>What a run keeps\<close>

text \<open>
  The database only grows, the cache too, a coherent cache stays coherent where SQLite is
  reliable, and nothing in a run starts or stops the loop.
\<close>

definition run_relates :: "('db \<Rightarrow> string \<rightharpoonup> whitelist_row) \<Rightarrow> ('c, 'db) world \<Rightarrow> 'db monitor \<Rightarrow> 'db monitor \<Rightarrow> bool" where
  "run_relates tbl wo d d' \<longleftrightarrow>
     mo_listed tbl d \<subseteq> mo_listed tbl d' \<and> mo_cached d \<subseteq> mo_cached d' \<and>
     g_running d' = g_running d \<and> g_monitor_shared_libs d' = g_monitor_shared_libs d \<and>
     (mo_reliable wo d \<longrightarrow> mo_reliable wo d' \<and>
        (mo_cached d \<subseteq> mo_listed tbl d \<longrightarrow> mo_cached d' \<subseteq> mo_listed tbl d'))"

lemma run_relates:
  assumes "mo_inv fed H tbl wo d" "run_events (handle_event wo) evs d = Ret d'"
  shows "run_relates tbl wo d d'"
  using assms
proof (rule body.run_keeps [where R = "run_relates tbl wo"])
  show "run_relates tbl wo s s" for s by (simp add: run_relates_def)
  show "run_relates tbl wo s s' \<Longrightarrow> run_relates tbl wo s' s'' \<Longrightarrow> run_relates tbl wo s s''" for s s' s''
    by (auto simp: run_relates_def)
  show "run_relates tbl wo s s'" if "mo_inv fed H tbl wo s" "handle_event wo ev env s = Ret s'" for s ev env s'
    using that by (rule handle_event_ruled) (auto simp: handled_def run_relates_def)
qed

section \<open>The buffers\<close>

text \<open>The events the inner loop hands to its body.\<close>

fun accepted :: "int \<Rightarrow> (fan_event \<times> event_env) list \<Rightarrow> (fan_event \<times> event_env) list" where
  "accepted len [] = []"
| "accepted len ((ev, env) # evs) =
     (if FAN_EVENT_OK ev len \<and> ev_vers ev = FANOTIFY_METADATA_VERSION
      then (ev, env) # accepted (len - uint (ev_len ev)) evs else [])"

lemma process_events_run:
  "process_events wo len evs d = run_events (handle_event wo) (accepted len evs) d"
proof (induction wo len evs d rule: process_events.induct)
  case (1 wo len d)
  then show ?case by simp
next
  case (2 wo len ev env evs d)
  show ?case
  proof (cases "FAN_EVENT_OK ev len \<and> ev_vers ev = FANOTIFY_METADATA_VERSION")
    case True
    then show ?thesis using 2 by (auto intro: bind_outcome_eqI)
  next
    case False
    then show ?thesis by auto
  qed
qed

text \<open>Whole records: the kernel's buffers hold events of at least the size of the metadata.\<close>

definition whole_records :: "(fan_event \<times> event_env) list \<Rightarrow> bool" where
  "whole_records evs \<longleftrightarrow> (\<forall>(ev, env) \<in> set evs. FAN_EVENT_METADATA_LEN \<le> uint (ev_len ev))"

lemma buffer_length_nonneg: "0 \<le> buffer_length evs"
  by (induction evs) (auto simp: buffer_length_def)

lemma accepted_whole:
  "whole_records evs \<Longrightarrow>
   accepted (buffer_length evs) evs =
     takeWhile (\<lambda>(ev, env). ev_vers ev = FANOTIFY_METADATA_VERSION) evs"
proof (induction evs)
  case Nil
  then show ?case by simp
next
  case (Cons x evs)
  obtain ev env where x: "x = (ev, env)" by fastforce
  have "FAN_EVENT_OK ev (buffer_length (x # evs))"
    using Cons.prems x buffer_length_nonneg [of evs]
    by (simp add: FAN_EVENT_OK_def whole_records_def buffer_length_def)
  moreover have "buffer_length (x # evs) - uint (ev_len ev) = buffer_length evs"
    using x by (simp add: buffer_length_def)
  ultimately show ?case using Cons x by (simp add: whole_records_def)
qed

section \<open>The loop as one run\<close>

text \<open>The events handed to the body until the loop stops, and the state it stops in.\<close>

fun loop_events :: "loop_input list \<Rightarrow> (fan_event \<times> event_env) list" where
  "loop_events [] = []"
| "loop_events (In_events evs # xs) = accepted (buffer_length evs) evs @ loop_events xs"
| "loop_events (In_again # xs) = loop_events xs"
| "loop_events (In_interrupted # xs) = loop_events xs"
| "loop_events (_ # xs) = []"

fun loop_end :: "loop_input list \<Rightarrow> 'db monitor \<Rightarrow> 'db monitor loop_result" where
  "loop_end [] d = Waiting d"
| "loop_end (In_stop # xs) d = Stopped (fanotify_stop d)"
| "loop_end (In_error # xs) d = Stopped d"
| "loop_end (_ # xs) d = loop_end xs d"

lemma loop_stopped: "\<not> g_running d \<Longrightarrow> fanotify_event_loop wo xs d = Ret (Stopped d)"
  by (cases xs) simp_all

lemma loop_run:
  "mo_inv fed H tbl wo d \<Longrightarrow> g_running d \<Longrightarrow>
   fanotify_event_loop wo xs d =
     bind_outcome (run_events (handle_event wo) (loop_events xs) d) (\<lambda>d'. Ret (loop_end xs d'))"
proof (induction xs arbitrary: d)
  case Nil
  then show ?case by simp
next
  case (Cons x xs)
  show ?case
  proof (cases x)
    case In_stop
    then show ?thesis using Cons.prems by (simp add: loop_stopped fanotify_stop_def)
  next
    case (In_events evs)
    show ?thesis
    proof (cases "run_events (handle_event wo) (accepted (buffer_length evs) evs) d")
      case (Ret d1)
      then have "mo_inv fed H tbl wo d1" "g_running d1"
        using body.run_answers [OF Cons.prems(1) Ret] run_relates [OF Cons.prems(1) Ret] Cons.prems(2)
        by (auto simp: run_relates_def)
      then show ?thesis
        using Cons.IH Cons.prems Ret In_events
        by (simp add: process_events_run run_events_append bind_outcome_assoc)
    qed (use Cons.prems In_events in \<open>simp_all add: process_events_run run_events_append\<close>)
  qed (use Cons in simp_all)
qed

primrec final_state :: "'d loop_result \<Rightarrow> 'd" where
  "final_state (Stopped d) = d"
| "final_state (Waiting d) = d"

primrec has_stopped :: "'d loop_result \<Rightarrow> bool" where
  "has_stopped (Stopped d) = True"
| "has_stopped (Waiting d) = False"

lemma loop_end_final:
  "final_state (loop_end xs d) = d \<or> final_state (loop_end xs d) = fanotify_stop d"
  by (induction xs d rule: loop_end.induct) auto

lemma loop_end_stopped: "has_stopped (loop_end xs d) \<longleftrightarrow> In_stop \<in> set xs \<or> In_error \<in> set xs"
  by (induction xs d rule: loop_end.induct) auto

lemma fanotify_stop_frame [simp]:
  "mo_answers (fanotify_stop d) = mo_answers d" "mo_cached (fanotify_stop d) = mo_cached d"
  "mo_listed tbl (fanotify_stop d) = mo_listed tbl d" "mo_closed (fanotify_stop d) = mo_closed d"
  "mo_inv fed H tbl wo (fanotify_stop d) = mo_inv fed H tbl wo d"
  "mo_reliable wo (fanotify_stop d) = mo_reliable wo d"
  by (simp_all add: fanotify_stop_def mo_cached_def mo_listed_def mo_inv_def mo_ok_def mo_reliable_def)

text \<open>Every return of the loop comes from a run of its body.\<close>

lemma loop_returns:
  assumes "mo_inv fed H tbl wo d" "g_running d" "fanotify_event_loop wo xs d = Ret r"
  obtains d' where "run_events (handle_event wo) (loop_events xs) d = Ret d'" "r = loop_end xs d'"
    "mo_inv fed H tbl wo d'" "run_relates tbl wo d d'"
proof -
  have "bind_outcome (run_events (handle_event wo) (loop_events xs) d) (\<lambda>d'. Ret (loop_end xs d')) = Ret r"
    using loop_run [OF assms(1,2), of xs] assms(3) by simp
  then obtain d' where d': "run_events (handle_event wo) (loop_events xs) d = Ret d'" "r = loop_end xs d'"
    by (auto simp: bind_outcome_Ret_iff)
  then show thesis
    using that body.run_answers [OF assms(1) d'(1)] run_relates [OF assms(1) d'(1)] by blast
qed

text \<open>The verdict where SQLite answers every query: known means cached or listed.\<close>

lemma known_reliable:
  assumes "mo_inv fed H tbl wo d" "mo_reliable wo d"
  shows "known wo d h \<longleftrightarrow> h \<in> mo_cached d \<union> mo_listed tbl d"
proof -
  obtain w r where "whitelist_check (wo_sql wo) (mo_whitelist d) h = (w, r)" by fastforce
  then show ?thesis
    using whitelist_check_exact [of "wo_sql wo" tbl "mo_whitelist d" h w r] assms
    by (simp add: known_def mo_inv_def mo_ok_def mo_reliable_def mo_listed_def)
qed

section \<open>Single events\<close>

lemma event_ruling_judged:
  "asks ev \<Longrightarrow> subject (asks_exec ev) wo env = Some (path, hash) \<Longrightarrow>
   event_ruling wo ev env d =
     ruling (wo_config wo) (known wo d hash) (answer (wo_config wo) env (mo_ipc (met env d)))"
  by (simp add: event_ruling_def handler_ruling_def)

lemma event_ruling_unjudged:
  "\<not> asks ev \<or> subject (asks_exec ev) wo env = None \<Longrightarrow> event_ruling wo ev env d = Ret (Allow, False)"
  by (auto simp: event_ruling_def handler_ruling_def)

lemma handle_event_Ret:
  assumes "mo_inv fed H tbl wo d" "event_ruling wo ev env d = Ret (v, keep)"
  obtains d' where "handle_event wo ev env d = Ret d'" "mo_inv fed H tbl wo d'"
    "handled tbl wo ev env v keep d d'"
  using handle_event_spec [OF assms(1), where env = env and ev = ev] assms(2) that by auto

lemma event_passes_known:
  assumes "mo_inv fed H tbl wo d" "asks ev" "subject (asks_exec ev) wo env = Some (path, hash)"
    and "known wo d hash"
  shows "\<exists>d'. handle_event wo ev env d = Ret d' \<and> mo_ipc d' = mo_ipc (met env d) \<and>
    mo_answers d' = mo_answers d @ (if en_write_ok env then [(ev_fd ev, Allow)] else [])"
proof -
  have "event_ruling wo ev env d = Ret (Allow, False)"
    using event_ruling_judged [OF assms(2,3)] assms(4) by (simp add: ruling_def)
  then obtain d' where "handle_event wo ev env d = Ret d'" "handled tbl wo ev env Allow False d d'"
    using handle_event_Ret [OF assms(1)] by blast
  then show ?thesis using assms(2-4) by (auto simp: handled_def consults_def)
qed

lemma ruling_deny_iff:
  "(\<exists>keep. ruling g k reply = Ret (Deny, keep)) \<longleftrightarrow>
   \<not> k \<and> \<not> daemon_is_learning_mode g \<and> (\<exists>r. reply = Ret r \<and> decision_of g r < 0)"
  by (cases reply) (auto simp: ruling_def)

lemma event_denied_iff:
  assumes "asks ev"
  shows "(\<exists>keep. event_ruling wo ev env d = Ret (Deny, keep)) \<longleftrightarrow>
    (\<exists>path hash r. subject (asks_exec ev) wo env = Some (path, hash) \<and> \<not> known wo d hash \<and>
       \<not> daemon_is_learning_mode (wo_config wo) \<and>
       answer (wo_config wo) env (mo_ipc (met env d)) = Ret r \<and> decision_of (wo_config wo) r < 0)"
proof (cases "subject (asks_exec ev) wo env")
  case None
  then show ?thesis by (simp add: event_ruling_unjudged)
next
  case (Some ph)
  then obtain path hash where s: "subject (asks_exec ev) wo env = Some (path, hash)" by (cases ph) auto
  show ?thesis unfolding event_ruling_judged [OF assms s] ruling_deny_iff s by simp
qed

lemma ruling_Blocked: "ruling g k reply = Blocked \<longleftrightarrow> \<not> k \<and> \<not> daemon_is_learning_mode g \<and> reply = Blocked"
  by (cases reply) (auto simp: ruling_def)

lemma answer_Blocked:
  "answer g env sv = Blocked \<longleftrightarrow> ipc_has_client sv \<and> env_write_ok (en_gui env) \<and>
     answers (sv_next_request_id sv) (env_before_write (en_gui env) @ env_wait (en_gui env)) = [] \<and>
     gui_timeout_ms g \<le> 0"
proof -
  have "answers r (xs @ ys) = answers r xs @ answers r ys" for r xs ys
    by (induction r xs rule: answers.induct) auto
  then show ?thesis by (auto simp: answer_def expected_result_def daemon_get_gui_timeout_def)
qed

end
