(* ===== verification/Daemon_Main.thy ===== *)
theory Daemon_Main
  imports Event_Loop
begin

text \<open>
  The rest of \<open>src/src/daemon/main.c\<close>: signals, directories, \<open>daemonize\<close> and \<open>main\<close> itself,
  which starts the components in order, runs the event loop and releases everything. What the
  host system answers on the way is the record \<open>host\<close>. \<open>fork\<close> copies only the calling
  thread: after \<open>daemonize\<close> no thread of the IPC server is left, so the process sees none of
  the events those threads would handle (\<open>silence\<close>).
\<close>

section \<open>Signals\<close>

datatype signal = SIGINT | SIGTERM | SIGHUP | SIGPIPE

datatype disposition = Handled | Ignored

fun setup_signals :: "signal \<Rightarrow> disposition" where
  "setup_signals SIGINT = Handled"
| "setup_signals SIGTERM = Handled"
| "setup_signals SIGHUP = Handled"
| "setup_signals SIGPIPE = Ignored"

definition signal_handler :: "'db monitor \<Rightarrow> 'db monitor" where
  "signal_handler d = fanotify_stop d"

definition deliver_signal :: "signal \<Rightarrow> 'db monitor \<Rightarrow> 'db monitor" where
  "deliver_signal sig d = (case setup_signals sig of Handled \<Rightarrow> signal_handler d | Ignored \<Rightarrow> d)"

section \<open>The host\<close>

datatype mkdir_result = Mkdir_ok | Mkdir_exists | Mkdir_failed

datatype fork_result = Fork_child | Fork_parent | Fork_failed

record daemonize_sys =
  dz_fork1 :: fork_result
  dz_setsid :: bool
  dz_fork2 :: fork_result
  dz_chdir :: bool

record host =
  ho_files :: "string \<Rightarrow> file_open"
  ho_options :: "option_arg list"
  ho_euid :: int
  ho_mkdir_lib :: mkdir_result
  ho_mkdir_run :: mkdir_result
  ho_calloc_table :: bool
  ho_calloc_bloom :: bool
  ho_ipc :: ipc_sys
  ho_fan :: fan_sys
  ho_daemonize :: daemonize_sys
  ho_inputs :: "loop_input list"

definition EXIT_SUCCESS :: int where "EXIT_SUCCESS = 0"
definition EXIT_FAILURE :: int where "EXIT_FAILURE = 1"

definition create_directories :: "host \<Rightarrow> int" where
  "create_directories ho =
     (if ho_mkdir_lib ho = Mkdir_failed then - 1
      else if ho_mkdir_run ho = Mkdir_failed then - 1
      else 0)"

text \<open>\<open>Some n\<close> where the process this follows exits with \<open>n\<close>.\<close>

definition daemonize :: "daemonize_sys \<Rightarrow> int option" where
  "daemonize dz =
     (if dz_fork1 dz = Fork_failed then Some EXIT_FAILURE
      else if dz_fork1 dz = Fork_parent then Some EXIT_SUCCESS
      else if \<not> dz_setsid dz then Some EXIT_FAILURE
      else if dz_fork2 dz = Fork_failed then Some EXIT_FAILURE
      else if dz_fork2 dz = Fork_parent then Some EXIT_SUCCESS
      else if \<not> dz_chdir dz then Some EXIT_FAILURE
      else None)"

text \<open>What a process without the server's threads sees of the same inputs.\<close>

definition silence_env :: "event_env \<Rightarrow> event_env" where
  "silence_env env = env\<lparr>en_meanwhile := [],
     en_gui := (en_gui env)\<lparr>env_before := [], env_before_write := [], env_wait := []\<rparr>\<rparr>"

fun silence :: "loop_input \<Rightarrow> loop_input" where
  "silence (In_events evs) = In_events (map (\<lambda>(ev, env). (ev, silence_env env)) evs)"
| "silence x = x"

section \<open>main\<close>

definition initial_monitor :: "'db monitor" where
  "initial_monitor = \<lparr>mo_cache = cache_zero, mo_whitelist = whitelist_initial, mo_ipc = ipc_initial,
     mo_answers = [], mo_closed = [], g_running = True, g_monitor_shared_libs = 1,
     g_stat_allowed = 0, g_stat_denied = 0, g_stat_cached = 0\<rparr>"

text \<open>
  How a run ends: \<open>exit\<close> inside a function, the \<open>return\<close> of \<open>main\<close> with the state then, or
  not at all: still serving, or still scanning when the fuel is used up.
\<close>

datatype 'd main_result = Process_exit int | Returned int 'd | Serving 'd | Still_scanning

definition main_setup ::
  "'db sqlite \<Rightarrow> config \<Rightarrow> host \<Rightarrow> 'db monitor \<Rightarrow> 'db monitor main_result + 'db monitor" where
  "main_setup sql g ho d =
     (if ho_euid ho \<noteq> 0 then Inl (Returned EXIT_FAILURE d)
      else if create_directories ho = - 1 then Inl (Returned EXIT_FAILURE d)
      else case whitelist_init sql (db_path g) (mo_whitelist d) of (w1, rc1) \<Rightarrow>
      let d1 = d\<lparr>mo_whitelist := w1\<rparr> in
      if rc1 = - 1 then Inl (Returned EXIT_FAILURE d1)
      else case cache_init (ho_calloc_table ho) (ho_calloc_bloom ho) 0 (mo_cache d1) of (c2, rc2) \<Rightarrow>
      let d2 = d1\<lparr>mo_cache := c2\<rparr> in
      if rc2 = - 1
      then Inl (Returned EXIT_FAILURE (d2\<lparr>mo_whitelist := whitelist_close (mo_whitelist d2)\<rparr>))
      else case ipc_server_init (ho_ipc ho) (mo_ipc d2) of (sv3, rc3) \<Rightarrow>
      let d3 = d2\<lparr>mo_ipc := sv3\<rparr> in
      if rc3 = - 1
      then Inl (Returned EXIT_FAILURE (d3\<lparr>mo_cache := cache_shutdown (mo_cache d3),
                                         mo_whitelist := whitelist_close (mo_whitelist d3)\<rparr>))
      else Inr d3)"

definition main_scan ::
  "nat \<Rightarrow> 'c sha256_api \<Rightarrow> 'db sqlite \<Rightarrow> os \<Rightarrow> config \<Rightarrow> 'db monitor \<Rightarrow> 'db monitor option" where
  "main_scan fuel sha sql os g d =
     (case (if do_scan g \<noteq> 0
            then map_option fst (perform_initial_scan fuel sha sql os g (mo_whitelist d))
            else Some (mo_whitelist d)) of
        None \<Rightarrow> None
      | Some w \<Rightarrow> Some (d\<lparr>mo_whitelist :=
          (if learning_mode g \<noteq> 0 then whitelist_set_learning_mode w 1 else w)\<rparr>))"

text \<open>Giving everything back, in the order of the source.\<close>

definition main_release :: "'db monitor \<Rightarrow> 'db monitor" where
  "main_release d =
     (let d1 = d\<lparr>mo_ipc := ipc_server_shutdown (mo_ipc d)\<rparr>;
          d2 = d1\<lparr>mo_cache := cache_shutdown (mo_cache d1)\<rparr>
      in d2\<lparr>mo_whitelist := whitelist_close (mo_whitelist d2)\<rparr>)"

text \<open>The group and its marks; a mount that cannot be marked is only reported.\<close>

definition main_monitor ::
  "config \<Rightarrow> host \<Rightarrow> 'db monitor \<Rightarrow> 'db monitor main_result + 'db monitor \<times> int \<times> int list" where
  "main_monitor g ho d =
     (let fan_fd = fanotify_init_exec_monitor (ho_fan ho) in
      if fan_fd = - 1 then Inl (Returned EXIT_FAILURE (main_release d))
      else let d1 = fanotify_set_monitor_shared_libs (monitor_shared_libs g) d
      in Inr (d1, fan_fd, map (fanotify_add_mount (ho_fan ho) d1 fan_fd) MONITOR_MOUNTS))"

definition daemon_main ::
  "nat \<Rightarrow> 'c sha256_api \<Rightarrow> 'db sqlite \<Rightarrow> os \<Rightarrow> host \<Rightarrow> 'db monitor main_result outcome" where
  "daemon_main fuel sha sql os ho =
     bind_outcome (load_config (ho_files ho) (ho_options ho) default_config) (\<lambda>r.
     case r of
       Args_exit n \<Rightarrow> Ret (Process_exit n)
     | Args_ok g \<Rightarrow>
     (case main_setup sql g ho initial_monitor of
       Inl res \<Rightarrow> Ret res
     | Inr d1 \<Rightarrow>
     (case main_scan fuel sha sql os g d1 of
       None \<Rightarrow> Ret Still_scanning
     | Some d2 \<Rightarrow>
     (case main_monitor g ho d2 of
       Inl res \<Rightarrow> Ret res
     | Inr (d3, fan_fd, marks) \<Rightarrow>
     (case (if foreground g = 0 then daemonize (ho_daemonize ho) else None) of
       Some n \<Rightarrow> Ret (Process_exit n)
     | None \<Rightarrow>
     (let inputs = (if foreground g = 0 then map silence (ho_inputs ho) else ho_inputs ho);
          wo = \<lparr>wo_sha = sha, wo_sql = sql, wo_os = os, wo_config = g\<rparr>
      in bind_outcome (fanotify_event_loop wo inputs d3) (\<lambda>r.
        case r of
          Waiting d4 \<Rightarrow> Ret (Serving d4)
        | Stopped d4 \<Rightarrow>
            Ret (Returned EXIT_SUCCESS (main_release (d4\<lparr>mo_closed := mo_closed d4 @ [fan_fd]\<rparr>))))))))))"

section \<open>Starting\<close>

lemma whitelist_init_ready:
  assumes "whitelist_init sql p w = (w', 0)"
  shows "whitelist_ready w'"
proof -
  have "\<exists>v. w' = fst (whitelist_count sql v) \<and> whitelist_ready v"
    using assms
    by (auto simp: whitelist_init_def Let_def whitelist_ready_def intro!: exI
        split: prod.splits option.splits if_splits)
  then show ?thesis using same_handles_ready [OF whitelist_count_frame] by blast
qed

lemma ipc_server_init_frame:
  assumes "ipc_server_init sys sv = (sv', rc)"
  shows "sv_client_fd sv' = sv_client_fd sv" "ipc_idle sv' = ipc_idle sv" "sv_sent sv' = sv_sent sv"
    "rc \<noteq> - 1 \<Longrightarrow> sv_server_fd sv' = ip_socket sys \<and> sv_running sv'"
  using assms by (auto simp: ipc_server_init_def Let_def ipc_idle_def split: if_splits)

lemma scan_all_frame:
  "scan_all fuel sha sql os g dirs w n = Some (w', n') \<Longrightarrow> same_handles w w'"
proof (induction dirs arbitrary: w n)
  case Nil
  then show ?case by simp
next
  case (Cons dir dirs)
  then show ?case
    by (auto split: if_splits option.splits intro: same_handles_trans dest!: scan_frame)
qed

lemma perform_initial_scan_frame:
  "perform_initial_scan fuel sha sql os g w = Some (w', n) \<Longrightarrow> same_handles w w'"
  using same_handles_trans [OF scan_all_frame whitelist_count_frame]
  by (auto simp: perform_initial_scan_def split: option.splits)

text \<open>What the three stages before the loop leave.\<close>

lemma main_setup_ready:
  assumes "main_setup sql g ho initial_monitor = Inr d"
  shows "cache_wf (mo_cache d) \<and> mo_cached d = {} \<and> ipc_idle (mo_ipc d) \<and> sv_client_fd (mo_ipc d) = - 1 \<and>
    sv_sent (mo_ipc d) = [] \<and> whitelist_ready (mo_whitelist d) \<and> mo_answers d = [] \<and> g_running d"
proof -
  obtain w1 where w1: "whitelist_init sql (db_path g) whitelist_initial = (w1, 0)"
    and rest: "main_setup sql g ho initial_monitor = Inr d" "ho_euid ho = 0" "create_directories ho \<noteq> - 1"
  proof -
    obtain w rc where w: "whitelist_init sql (db_path g) whitelist_initial = (w, rc)" by fastforce
    have "rc = 0 \<or> rc = - 1"
      using w by (auto simp: whitelist_init_def Let_def split: prod.splits option.splits if_splits)
    moreover have "rc \<noteq> - 1" "ho_euid ho = 0" "create_directories ho \<noteq> - 1"
      using assms w by (auto simp: main_setup_def initial_monitor_def Let_def split: if_splits)
    ultimately show thesis using that w assms by simp
  qed
  obtain c2 rc2 where c2: "cache_init (ho_calloc_table ho) (ho_calloc_bloom ho) 0 cache_zero = (c2, rc2)"
    by fastforce
  obtain sv3 rc3 where sv3: "ipc_server_init (ho_ipc ho) ipc_initial = (sv3, rc3)" by fastforce
  have d: "d = initial_monitor\<lparr>mo_whitelist := w1, mo_cache := c2, mo_ipc := sv3\<rparr>" "rc2 \<noteq> - 1"
    using assms w1 c2 sv3 rest by (auto simp: main_setup_def initial_monitor_def Let_def split: if_splits)
  have "\<not> initialized cache_zero" by (simp add: cache_zero_def)
  then have "cache_wf c2" "cache_digests c2 = {}" using cache_init_wf [OF _ c2] d(2) by auto
  then show ?thesis
    using d(1) whitelist_init_ready [OF w1] ipc_server_init_frame [OF sv3] ipc_initial_idle
    by (simp add: initial_monitor_def mo_cached_def cache_members_def ipc_initial_def)
qed

lemma main_scan_frame:
  assumes "main_scan fuel sha sql os g d = Some d'"
  shows "mo_cache d' = mo_cache d \<and> mo_ipc d' = mo_ipc d \<and> mo_answers d' = mo_answers d \<and>
    g_running d' = g_running d \<and> (whitelist_ready (mo_whitelist d) \<longrightarrow> whitelist_ready (mo_whitelist d'))"
proof -
  obtain w where w: "same_handles (mo_whitelist d) w" and
    d': "d' = d\<lparr>mo_whitelist := (if learning_mode g \<noteq> 0 then whitelist_set_learning_mode w 1 else w)\<rparr>"
  proof (cases "do_scan g \<noteq> 0")
    case True
    then obtain w n where "perform_initial_scan fuel sha sql os g (mo_whitelist d) = Some (w, n)"
      "d' = d\<lparr>mo_whitelist := (if learning_mode g \<noteq> 0 then whitelist_set_learning_mode w 1 else w)\<rparr>"
      using assms by (auto simp: main_scan_def split: option.splits)
    then show thesis using that perform_initial_scan_frame by blast
  next
    case False
    then show thesis using that [of "mo_whitelist d"] assms by (simp add: main_scan_def)
  qed
  have "whitelist_ready (whitelist_set_learning_mode w 1) = whitelist_ready w"
    by (simp add: whitelist_ready_def whitelist_set_learning_mode_def)
  then show ?thesis using same_handles_ready [OF w] d' by simp
qed

text \<open>The three stages in a row.\<close>

definition main_ready ::
  "nat \<Rightarrow> 'c sha256_api \<Rightarrow> 'db sqlite \<Rightarrow> os \<Rightarrow> host \<Rightarrow> config \<Rightarrow> 'db monitor \<Rightarrow> int \<Rightarrow> bool" where
  "main_ready fuel sha sql os ho g d fan_fd \<longleftrightarrow>
     (\<exists>d1 d2 marks. main_setup sql g ho initial_monitor = Inr d1 \<and>
        main_scan fuel sha sql os g d1 = Some d2 \<and> main_monitor g ho d2 = Inr (d, fan_fd, marks))"

lemma main_ready_state:
  assumes "main_ready fuel sha sql os ho g d fan_fd"
  shows "cache_wf (mo_cache d) \<and> mo_cached d = {} \<and> ipc_idle (mo_ipc d) \<and> sv_client_fd (mo_ipc d) = - 1 \<and>
    sv_sent (mo_ipc d) = [] \<and> whitelist_ready (mo_whitelist d) \<and> mo_answers d = [] \<and> g_running d \<and>
    g_monitor_shared_libs d = monitor_shared_libs g"
proof -
  obtain d1 d2 marks where d1: "main_setup sql g ho initial_monitor = Inr d1"
    and d2: "main_scan fuel sha sql os g d1 = Some d2" and d: "main_monitor g ho d2 = Inr (d, fan_fd, marks)"
    using assms by (auto simp: main_ready_def)
  have "d = fanotify_set_monitor_shared_libs (monitor_shared_libs g) d2"
    using d by (auto simp: main_monitor_def Let_def split: if_splits)
  then show ?thesis using main_setup_ready [OF d1] main_scan_frame [OF d2]
    by (simp add: fanotify_set_monitor_shared_libs_def mo_cached_def)
qed

lemma main_ready_inv:
  assumes "main_ready fuel sha sql os ho g d fan_fd" "sha256_spec sha fed H" "sqlite_spec sql tbl"
    and "wo = \<lparr>wo_sha = sha, wo_sql = sql, wo_os = os, wo_config = g\<rparr>"
  shows "mo_inv fed H tbl wo d \<and> g_running d \<and> mo_cached d \<subseteq> mo_listed tbl d \<and>
    (sqlite_never_fails sql \<longrightarrow> mo_reliable wo d)"
  using main_ready_state [OF assms(1)] assms(2-4) by (simp add: mo_inv_def mo_ok_def mo_reliable_def)

text \<open>Every run of \<open>main\<close> that gets as far as the loop is that loop from a ready state.\<close>

definition seen_inputs :: "config \<Rightarrow> host \<Rightarrow> loop_input list" where
  "seen_inputs g ho = (if foreground g = 0 then map silence (ho_inputs ho) else ho_inputs ho)"

lemma daemon_main_cases:
  assumes "daemon_main fuel sha sql os ho = Ret res"
  obtains (early) n where "res = Process_exit n"
  | (scanning) "res = Still_scanning"
  | (not_set_up) g where "main_setup sql g ho initial_monitor = Inl res"
  | (not_monitoring) g d2 where "main_monitor g ho d2 = Inl res"
  | (loop) g d fan_fd r where "load_config (ho_files ho) (ho_options ho) default_config = Ret (Args_ok g)"
    "main_ready fuel sha sql os ho g d fan_fd"
    "fanotify_event_loop \<lparr>wo_sha = sha, wo_sql = sql, wo_os = os, wo_config = g\<rparr> (seen_inputs g ho) d = Ret r"
    "res = (case r of Waiting d4 \<Rightarrow> Serving d4
            | Stopped d4 \<Rightarrow> Returned EXIT_SUCCESS (main_release (d4\<lparr>mo_closed := mo_closed d4 @ [fan_fd]\<rparr>)))"
proof -
  obtain a where a: "load_config (ho_files ho) (ho_options ho) default_config = Ret a"
    using assms by (auto simp: daemon_main_def bind_outcome_Ret_iff)
  show thesis
  proof (cases a)
    case (Args_exit n)
    then show thesis using assms a by (intro early [of n]) (simp add: daemon_main_def)
  next
    case (Args_ok g)
    show thesis
    proof (cases "main_setup sql g ho initial_monitor")
      case (Inl r)
      then show thesis using not_set_up assms a Args_ok by (simp add: daemon_main_def)
    next
      case (Inr d1)
      show thesis
      proof (cases "main_scan fuel sha sql os g d1")
        case None
        then show thesis using scanning assms a Args_ok Inr by (simp add: daemon_main_def)
      next
        case (Some d2)
        show thesis
        proof (cases "main_monitor g ho d2")
          case (Inl r)
          then show thesis using not_monitoring assms a Args_ok Inr Some by (simp add: daemon_main_def)
        next
          case (Inr t)
          obtain d fan_fd marks where t: "t = (d, fan_fd, marks)" by (cases t)
          have ready: "main_ready fuel sha sql os ho g d fan_fd"
            using Inr Some t \<open>main_setup sql g ho initial_monitor = Inr d1\<close> by (auto simp: main_ready_def)
          show thesis
          proof (cases "if foreground g = 0 then daemonize (ho_daemonize ho) else None")
            case None
            then have "bind_outcome (fanotify_event_loop \<lparr>wo_sha = sha, wo_sql = sql, wo_os = os, wo_config = g\<rparr>
                (seen_inputs g ho) d) (\<lambda>r. case r of Waiting d4 \<Rightarrow> Ret (Serving d4)
                | Stopped d4 \<Rightarrow>
                    Ret (Returned EXIT_SUCCESS (main_release (d4\<lparr>mo_closed := mo_closed d4 @ [fan_fd]\<rparr>)))) = Ret res"
              using assms a Args_ok Some t Inr \<open>main_setup sql g ho initial_monitor = Inr d1\<close>
              by (simp add: daemon_main_def seen_inputs_def Let_def)
            then obtain r where r: "fanotify_event_loop \<lparr>wo_sha = sha, wo_sql = sql, wo_os = os, wo_config = g\<rparr>
                (seen_inputs g ho) d = Ret r"
              and k: "(case r of Waiting d4 \<Rightarrow> Ret (Serving d4)
                | Stopped d4 \<Rightarrow>
                    Ret (Returned EXIT_SUCCESS (main_release (d4\<lparr>mo_closed := mo_closed d4 @ [fan_fd]\<rparr>)))) = Ret res"
              unfolding bind_outcome_Ret_iff by blast
            have "res = (case r of Waiting d4 \<Rightarrow> Serving d4
                | Stopped d4 \<Rightarrow> Returned EXIT_SUCCESS (main_release (d4\<lparr>mo_closed := mo_closed d4 @ [fan_fd]\<rparr>)))"
              using k by (cases r) simp_all
            then show thesis using loop [OF _ ready r] a Args_ok by simp
          next
            case (Some n)
            then show thesis
              using assms a Args_ok t Inr \<open>main_setup sql g ho initial_monitor = Inr d1\<close>
                \<open>main_scan fuel sha sql os g d1 = Some d2\<close>
              by (intro early [of n]) (simp add: daemon_main_def)
          qed
        qed
      qed
    qed
  qed
qed

section \<open>Ending\<close>

text \<open>What an exit of the daemon must leave: no database handle, no cache, no socket.\<close>

definition released :: "'db monitor \<Rightarrow> bool" where
  "released d \<longleftrightarrow> g_db (mo_whitelist d) = None \<and> \<not> g_stmt_check (mo_whitelist d) \<and>
     \<not> g_stmt_add (mo_whitelist d) \<and> \<not> g_stmt_remove (mo_whitelist d) \<and>
     \<not> initialized (mo_cache d) \<and> sv_client_fd (mo_ipc d) < 0 \<and> sv_server_fd (mo_ipc d) < 0 \<and>
     \<not> sv_running (mo_ipc d)"

lemma main_release_released: "released (main_release d)"
  by (simp add: released_def main_release_def whitelist_close_def cache_shutdown_def
      ipc_server_shutdown_def Let_def)

lemma main_setup_fails:
  fixes sql :: "'a sqlite"
  assumes "main_setup sql g ho initial_monitor = Inl res"
  shows "\<exists>d. res = Returned EXIT_FAILURE d \<and> \<not> initialized (mo_cache d) \<and> sv_client_fd (mo_ipc d) < 0 \<and>
    (g_db (mo_whitelist d) = None \<or> snd (whitelist_init sql (db_path g) whitelist_initial) = - 1) \<and>
    (0 \<le> sv_server_fd (mo_ipc d) \<longrightarrow> sv_server_fd (mo_ipc d) \<in> set (sv_closed (mo_ipc d)))"
proof -
  have z: "\<not> initialized cache_zero" by (simp add: cache_zero_def)
  let ?d = "initial_monitor :: 'a monitor"
  have ini: "mo_cache ?d = cache_zero" "mo_whitelist ?d = whitelist_initial"
    "mo_ipc ?d = ipc_initial" "g_db (whitelist_initial :: 'a whitelist) = None"
    "sv_client_fd ipc_initial = - 1" "sv_server_fd ipc_initial = - 1"
    by (simp_all add: initial_monitor_def whitelist_initial_def ipc_initial_def)
  obtain w1 rc1 where w1: "whitelist_init sql (db_path g) whitelist_initial = (w1, rc1)" by fastforce
  obtain c2 rc2 where c2: "cache_init (ho_calloc_table ho) (ho_calloc_bloom ho) 0 cache_zero = (c2, rc2)"
    by fastforce
  obtain sv3 rc3 where sv3: "ipc_server_init (ho_ipc ho) ipc_initial = (sv3, rc3)" by fastforce
  have c: "rc2 = - 1 \<longrightarrow> \<not> initialized c2" using cache_init_wf [OF z c2] by simp
  have sv: "rc3 = - 1 \<longrightarrow> 0 \<le> sv_server_fd sv3 \<longrightarrow> sv_server_fd sv3 \<in> set (sv_closed sv3)"
    "sv_client_fd sv3 = - 1"
    using sv3 by (auto simp: ipc_server_init_def ipc_initial_def Let_def split: if_splits)
  show ?thesis
    using assms z ini w1 c2 sv3 c sv
    by (auto simp: main_setup_def Let_def whitelist_close_def cache_shutdown_def split: if_splits)
qed

section \<open>Running in the background\<close>

lemma silence_env_met: "met (silence_env env) d = d"
  by (simp add: met_def silence_env_def)

lemma accepted_silence:
  "(ev, env) \<in> set (accepted len (map (\<lambda>(ev, env). (ev, silence_env env)) evs)) \<Longrightarrow> \<exists>env'. env = silence_env env'"
proof (induction evs arbitrary: len)
  case Nil
  then show ?case by simp
next
  case (Cons x evs)
  then show ?case by (cases x) (auto split: if_splits)
qed

lemma loop_events_silence:
  "(ev, env) \<in> set (loop_events (map silence xs)) \<Longrightarrow> \<exists>env'. env = silence_env env'"
proof (induction xs)
  case Nil
  then show ?case by simp
next
  case (Cons x xs)
  then show ?case by (cases x) (auto dest: accepted_silence)
qed

text \<open>A server without a client that meets no event stays as it is along a whole run.\<close>

lemma silent_run:
  assumes "mo_inv fed H tbl wo d" "\<not> ipc_has_client (mo_ipc d)"
    and "run_events (handle_event wo) (loop_events (map silence xs)) d = Ret d'"
  shows "mo_ipc d' = mo_ipc d"
proof -
  have "ipc_has_client (mo_ipc d) \<or> mo_ipc d' = mo_ipc d"
  proof (rule body.run_keeps [OF assms(1,3), where R = "\<lambda>s s'. ipc_has_client (mo_ipc s) \<or> mo_ipc s' = mo_ipc s"])
    fix s ev env s'
    assume mem: "(ev, env) \<in> set (loop_events (map silence xs))"
      and inv: "mo_inv fed H tbl wo s" and st: "handle_event wo ev env s = Ret s'"
    obtain env' where env: "env = silence_env env'" using loop_events_silence [OF mem] by blast
    from inv st obtain v keep where "handled tbl wo ev env v keep s s'" by (rule handle_event_ruled)
    then show "ipc_has_client (mo_ipc s) \<or> mo_ipc s' = mo_ipc s"
      by (auto simp: handled_def env silence_env_met)
  qed auto
  then show ?thesis using assms(2) by blast
qed

end
