(* ===== verification/Restart.thy ===== *)
theory Restart
  imports Daemon_Main
begin

text \<open>
  One daemon after another on the same database file. Everything but the file is lost when the
  first one ends: the second starts from \<open>whitelist_initial\<close>, an empty cache and an empty table of
  requests. \<open>reopen\<close> is what SQLite's durability promises: opening the file again gives a
  connection with the table the last one left; \<open>spec_create\<close> is the "IF NOT EXISTS" of the
  statement that \<open>whitelist_init\<close> runs on it.
\<close>

section \<open>The file between two connections\<close>

definition reopen :: "'db sqlite \<Rightarrow> string \<Rightarrow> 'db \<Rightarrow> 'db sqlite" where
  "reopen sql path db = sql\<lparr>sql_open := (sql_open sql)(path := (Some db, True))\<rparr>"

definition spec_create :: "'db sqlite \<Rightarrow> ('db \<Rightarrow> string \<rightharpoonup> whitelist_row) \<Rightarrow> bool" where
  "spec_create sql tbl \<longleftrightarrow> (\<forall>db. tbl (fst (sql_exec sql db create_table_sql)) = tbl db)"

lemma reopen_simps [simp]:
  "sql_open (reopen sql path db) path = (Some db, True)"
  "sql_exec (reopen sql path db) = sql_exec sql" "sql_prepare (reopen sql path db) = sql_prepare sql"
  "sql_step (reopen sql path db) = sql_step sql"
  by (simp_all add: reopen_def)

lemma reopen_spec [simp]:
  "sqlite_spec (reopen sql path db) tbl = sqlite_spec sql tbl"
  "sqlite_never_fails (reopen sql path db) = sqlite_never_fails sql"
  "spec_create (reopen sql path db) tbl = spec_create sql tbl"
  by (simp_all add: sqlite_spec_def spec_check_def spec_add_def spec_remove_def spec_count_def
      sqlite_never_fails_def spec_create_def)

lemma ref_sqlite_create: "spec_create ref_sqlite map_of"
  by (simp add: spec_create_def ref_sqlite_def)

section \<open>Starting on a file\<close>

lemma whitelist_count_table:
  assumes "sqlite_spec sql tbl"
  shows "wl_table tbl (fst (whitelist_count sql w)) = wl_table tbl w"
  using sqlite_spec_countD [OF assms]
  by (auto simp: whitelist_count_def wl_table_def
      split: option.splits step_result.splits prod.splits list.splits sql_value.splits)

lemma whitelist_init_table:
  assumes "sqlite_spec sql tbl" "spec_create sql tbl" "sql_open sql path = (Some db, True)"
    and "whitelist_init sql path w = (w', 0)"
  shows "wl_table tbl w' = tbl db"
proof -
  obtain db2 b where e: "sql_exec sql db create_table_sql = (db2, b)" by fastforce
  have "\<exists>v. w' = fst (whitelist_count sql v) \<and> g_db v = Some db2"
    using assms(3,4) e
    by (auto simp: whitelist_init_def Let_def intro!: exI split: if_splits)
  moreover have "tbl db2 = tbl db" using assms(2) e by (metis spec_create_def fst_conv)
  ultimately show ?thesis using whitelist_count_table [OF assms(1)] by (auto simp: wl_table_def)
qed

lemma main_setup_table:
  assumes "sqlite_spec sql tbl" "spec_create sql tbl" "sql_open sql (db_path g) = (Some db, True)"
    and "main_setup sql g ho initial_monitor = Inr d"
  shows "mo_listed tbl d = dom (tbl db)"
proof -
  obtain w rc where w: "whitelist_init sql (db_path g) whitelist_initial = (w, rc)" by fastforce
  have "rc = 0 \<or> rc = - 1"
    using w by (auto simp: whitelist_init_def Let_def split: prod.splits option.splits if_splits)
  moreover have "rc \<noteq> - 1" "mo_whitelist d = w"
    using assms(4) w by (auto simp: main_setup_def initial_monitor_def Let_def split: if_splits prod.splits)
  ultimately show ?thesis using whitelist_init_table [OF assms(1-3), of whitelist_initial w] w
    by (simp add: mo_listed_def)
qed

lemma scan_all_grows:
  "sqlite_spec sql tbl \<Longrightarrow> scan_all fuel sha sql os g dirs w n = Some (w', n') \<Longrightarrow>
   dom (wl_table tbl w) \<subseteq> dom (wl_table tbl w')"
proof (induction dirs arbitrary: w n)
  case Nil
  then show ?case by simp
next
  case (Cons dir dirs)
  then show ?case using scan_grows [OF Cons.prems(1)]
    by (fastforce split: if_splits option.splits)
qed

lemma main_scan_grows:
  assumes "sqlite_spec sql tbl" "main_scan fuel sha sql os g d = Some d'"
  shows "mo_listed tbl d \<subseteq> mo_listed tbl d'"
proof (cases "do_scan g \<noteq> 0")
  case True
  then obtain w n where w: "scan_all fuel sha sql os g SCAN_DIRS (mo_whitelist d) 0 = Some (w, n)"
    and d': "wl_table tbl (mo_whitelist d') = wl_table tbl (fst (whitelist_count sql w))"
    using assms(2) by (auto simp: main_scan_def perform_initial_scan_def wl_table_def
        whitelist_set_learning_mode_def split: option.splits)
  then show ?thesis
    using scan_all_grows [OF assms(1) w] whitelist_count_table [OF assms(1), of w] by (simp add: mo_listed_def)
next
  case False
  then show ?thesis using assms(2)
    by (auto simp: main_scan_def mo_listed_def wl_table_def whitelist_set_learning_mode_def)
qed

text \<open>Whatever the second daemon is told to do at its start, it begins with all the first one listed.\<close>

lemma main_ready_listed:
  assumes "sqlite_spec sql tbl" "spec_create sql tbl" "sql_open sql (db_path g) = (Some db, True)"
    and "main_ready fuel sha sql os ho g d fan_fd"
  shows "dom (tbl db) \<subseteq> mo_listed tbl d"
proof -
  obtain d1 d2 marks where d1: "main_setup sql g ho initial_monitor = Inr d1"
    and d2: "main_scan fuel sha sql os g d1 = Some d2" and d: "main_monitor g ho d2 = Inr (d, fan_fd, marks)"
    using assms(4) by (auto simp: main_ready_def)
  have "mo_listed tbl d = mo_listed tbl d2"
    using d by (auto simp: main_monitor_def Let_def fanotify_set_monitor_shared_libs_def mo_listed_def split: if_splits)
  then show ?thesis using main_setup_table [OF assms(1-3) d1] main_scan_grows [OF assms(1) d2] by simp
qed

section \<open>Serving on a file\<close>

text \<open>What a daemon that serves has in common with the state it entered the loop in.\<close>

lemma serving_from_ready:
  assumes "sha256_spec sha fed H" "sqlite_spec sql tbl"
    and "daemon_main fuel sha sql os ho = Ret (Serving d)"
  obtains g d0 fan_fd where "load_config (ho_files ho) (ho_options ho) default_config = Ret (Args_ok g)"
    "main_ready fuel sha sql os ho g d0 fan_fd"
    "mo_inv fed H tbl \<lparr>wo_sha = sha, wo_sql = sql, wo_os = os, wo_config = g\<rparr> d"
    "run_relates tbl \<lparr>wo_sha = sha, wo_sql = sql, wo_os = os, wo_config = g\<rparr> d0 d"
  using assms(3)
proof (cases rule: daemon_main_cases)
  case (loop g d0 fan_fd r)
  let ?wo = "\<lparr>wo_sha = sha, wo_sql = sql, wo_os = os, wo_config = g\<rparr>"
  have start: "mo_inv fed H tbl ?wo d0" "g_running d0"
    using main_ready_inv [OF loop(2) assms(1,2), where wo = ?wo] by simp_all
  have r: "r = Waiting d" using loop(4) by (cases r) simp_all
  obtain d' where d': "r = loop_end (seen_inputs g ho) d'" "mo_inv fed H tbl ?wo d'" "run_relates tbl ?wo d0 d'"
    using start loop(3) by (rule loop_returns)
  have "loop_end xs d' = Waiting e \<Longrightarrow> e = d'" for xs e
    by (induction xs d' rule: loop_end.induct) simp_all
  then have "d = d'" using d'(1) r by metis
  then show thesis using that [OF loop(1,2)] d'(2,3) by simp
next
  case (not_set_up g)
  then show thesis using main_setup_fails by blast
next
  case (not_monitoring g d2)
  then show thesis by (auto simp: main_monitor_def Let_def split: if_splits)
qed simp_all

end
