(* ===== verification/Example.thy ===== *)
theory Example
  imports Restart
begin

text \<open>
  A concrete daemon, for the witnesses of the properties: the reference SQLite, a digest that
  pads, a freshly initialised cache and database, one ELF file that asks to be executed.
\<close>

definition demo_os :: os where
  "demo_os = \<lparr>os_clock = int, os_opendir = (\<lambda>p. None), os_lstat = (\<lambda>p. None), os_open = (\<lambda>p. None)\<rparr>"

definition demo_world :: "config \<Rightarrow> (u8 list, ref_db) world" where
  "demo_world g = \<lparr>wo_sha = pad_api, wo_sql = ref_sqlite, wo_os = demo_os, wo_config = g\<rparr>"

definition demo_cache :: cache where
  "demo_cache = fst (cache_init True True 0 cache_zero)"

definition demo_whitelist :: "ref_db whitelist" where
  "demo_whitelist = fst (whitelist_init ref_sqlite ''lexec.db'' whitelist_initial)"

definition demo_monitor :: "ipc_server \<Rightarrow> ref_db monitor" where
  "demo_monitor sv = \<lparr>mo_cache = demo_cache, mo_whitelist = demo_whitelist, mo_ipc = sv,
     mo_answers = [], mo_closed = [], g_running = True, g_monitor_shared_libs = 1,
     g_stat_allowed = 0, g_stat_denied = 0, g_stat_cached = 0\<rparr>"

definition demo_file :: fdesc where
  "demo_file = \<lparr>fd_content = elf_magic, fd_pos = 0, fd_seekable = True, fd_reads = []\<rparr>"

definition demo_event :: fan_event where
  "demo_event = \<lparr>ev_len = 24, ev_vers = 3, ev_mask = FAN_OPEN_EXEC_PERM, ev_fd = 7, ev_pid = 42\<rparr>"

definition quiet_gui :: ipc_env where
  "quiet_gui = \<lparr>env_before = [], env_before_write = [], env_write_ok = True, env_wait = []\<rparr>"

text \<open>A client that answers the first request with \<open>r\<close>.\<close>

definition reply_gui :: "int \<Rightarrow> ipc_env" where
  "reply_gui r = quiet_gui\<lparr>env_wait := [Ev_response 9 \<lparr>rs_request_id = 1, rs_response = r\<rparr>]\<rparr>"

definition demo_env :: "ipc_env \<Rightarrow> event_env" where
  "demo_env gui = \<lparr>en_target = Some ''/opt/tool'', en_file = demo_file, en_exe = None,
     en_write_ok = True, en_malloc_ok = True, en_meanwhile = [], en_gui = gui\<rparr>"

definition demo_request :: exec_request where
  "demo_request = build_request (demo_env quiet_gui) ''/opt/tool'' [] 42 False"

text \<open>A server with a client on descriptor 9.\<close>

definition demo_client :: ipc_server where
  "demo_client = accept_client 9 ipc_initial"

definition demo_hash :: string where
  "demo_hash = bytes_to_hex (pad_digest elf_magic)"

lemmas demo_defs = demo_os_def demo_world_def demo_cache_def demo_whitelist_def demo_monitor_def
  demo_file_def demo_event_def quiet_gui_def reply_gui_def demo_env_def demo_client_def

section \<open>Facts about it\<close>

lemma demo_cache_wf: "cache_wf demo_cache" "cache_digests demo_cache = {}"
proof -
  obtain r where i: "cache_init True True 0 cache_zero = (demo_cache, r)"
    by (metis demo_cache_def prod.collapse)
  have "\<not> initialized cache_zero" by (simp add: cache_zero_def)
  then show "cache_wf demo_cache" "cache_digests demo_cache = {}"
    using cache_init_wf [OF _ i] by simp_all
qed

lemma demo_whitelist_table: "wl_table map_of demo_whitelist = Map.empty" "whitelist_ready demo_whitelist"
  by (simp_all add: demo_whitelist_def whitelist_init_def whitelist_initial_def ref_sqlite_def
      ref_step_def whitelist_count_def wl_table_def whitelist_ready_def Let_def)

lemma demo_idle: "ipc_idle ipc_initial" "ipc_idle demo_client"
  by (simp_all add: ipc_initial_idle demo_client_def accept_client_def)
    (simp add: ipc_idle_def ipc_initial_def MAX_PENDING_REQUESTS_def Let_def)

lemma demo_inv:
  "ipc_idle sv \<Longrightarrow> mo_inv (\<lambda>c. c) pad_digest map_of (demo_world g) (demo_monitor sv)"
  by (simp add: mo_inv_def mo_ok_def demo_world_def demo_monitor_def demo_cache_wf ref_sqlite_spec
      pad_api_spec)

lemma demo_reliable: "mo_reliable (demo_world g) (demo_monitor sv)"
  by (simp add: mo_reliable_def demo_world_def demo_monitor_def demo_whitelist_table ref_sqlite_never_fails)

lemma demo_members: "mo_cached (demo_monitor sv) = {}" "mo_listed map_of (demo_monitor sv) = {}"
  by (simp_all add: mo_cached_def mo_listed_def demo_monitor_def cache_members_def demo_cache_wf
      demo_whitelist_table)

lemma demo_not_excluded: "\<not> is_path_excluded default_config ''/opt/tool''"
proof -
  have "exclusion_prefixes default_config = [''/proc'', ''/sys'', ''/dev'', ''/run'']"
    by code_simp
  then show ?thesis by (simp add: is_path_excluded_iff)
qed

lemma demo_subject:
  assumes "exclude_paths g = exclude_paths default_config"
  shows "subject True (demo_world g) (demo_env gui) = Some (''/opt/tool'', demo_hash)"
proof -
  have elf: "is_elf_file demo_file = (demo_file, True)"
    by (simp add: is_elf_file_def demo_file_def lseek_cur_def lseek_set_def read_fd_def Let_def
        elf_magic_def numeral_eq_Suc)
  have "snd (hash_fd pad_api demo_file) = Some demo_hash"
    using pad_hash_fd [of demo_file] by (simp add: demo_file_def demo_hash_def)
  moreover have "\<not> is_path_excluded g ''/opt/tool''"
    using demo_not_excluded assms by (simp add: is_path_excluded_def)
  ultimately show ?thesis
    using elf by (simp add: subject_def demo_env_def demo_world_def get_path_from_fd_def PATH_MAX_def)
qed

text \<open>What is to be judged does not depend on the database.\<close>

lemma subject_database:
  "subject is_exec \<lparr>wo_sha = sha, wo_sql = reopen sql p db, wo_os = os, wo_config = g\<rparr> env =
   subject is_exec \<lparr>wo_sha = sha, wo_sql = sql, wo_os = os, wo_config = g\<rparr> env"
  unfolding subject_def world.select_convs ..

lemma demo_asks: "asks demo_event" "asks_exec demo_event"
  by (simp_all add: asks_def asks_exec_def demo_event_def FAN_OPEN_EXEC_PERM_def)

lemma demo_fields:
  "ev_fd demo_event = 7" "ev_pid demo_event = 42" "en_write_ok (demo_env gui)" "en_gui (demo_env gui) = gui"
  "mo_ipc (demo_monitor sv) = sv" "mo_answers (demo_monitor sv) = []" "g_running (demo_monitor sv)"
  "wo_config (demo_world g) = g"
  by (simp_all add: demo_event_def demo_env_def demo_monitor_def demo_world_def)

lemma demo_met: "met (demo_env gui) d = d"
  by (simp add: met_def demo_env_def)

text \<open>The one event, handled: the ruling is that of an unknown digest.\<close>

lemma demo_ruling:
  assumes "exclude_paths g = exclude_paths default_config"
  shows "event_ruling (demo_world g) demo_event (demo_env gui) (demo_monitor sv) =
    ruling g False (answer g (demo_env gui) sv)"
proof -
  have sv: "mo_ipc (demo_monitor sv) = sv" by (simp add: demo_monitor_def)
  have wo: "wo_config (demo_world g) = g" by (simp add: demo_world_def)
  have "snd (whitelist_check ref_sqlite demo_whitelist demo_hash) = 0"
    by (simp add: demo_whitelist_def whitelist_init_def whitelist_initial_def ref_sqlite_def ref_step_def
        whitelist_count_def whitelist_check_def Let_def)
  then have "\<not> known (demo_world g) (demo_monitor sv) demo_hash"
    by (simp add: known_def demo_members) (simp add: demo_world_def demo_monitor_def)
  then show ?thesis
    by (simp add: event_ruling_def demo_asks demo_met handler_ruling_def demo_subject [OF assms] sv wo)
qed

lemma demo_handled:
  assumes "exclude_paths g = exclude_paths default_config" "ipc_idle sv"
    and "ruling g False (answer g (demo_env gui) sv) = Ret (v, keep)"
  obtains d' where
    "handle_event (demo_world g) demo_event (demo_env gui) (demo_monitor sv) = Ret d'"
    "mo_inv (\<lambda>c. c) pad_digest map_of (demo_world g) d'"
    "handled map_of (demo_world g) demo_event (demo_env gui) v keep (demo_monitor sv) d'"
  using handle_event_spec [OF demo_inv [OF assms(2), of g], where env = "demo_env gui" and ev = demo_event]
    demo_ruling [OF assms(1), of gui sv] assms(3) that
  by auto

lemma demo_answers:
  "answer g (demo_env gui) ipc_initial = Ret LEXEC_RESPONSE_NO_CLIENT"
  "answer g (demo_env (reply_gui r)) demo_client = Ret r"
  "0 < gui_timeout_ms g \<Longrightarrow> answer g (demo_env quiet_gui) demo_client = Ret LEXEC_RESPONSE_TIMEOUT"
  "gui_timeout_ms g \<le> 0 \<Longrightarrow> answer g (demo_env quiet_gui) demo_client = Blocked"
  by (simp_all add: answer_def ipc_has_client_def ipc_initial_def demo_client_def accept_client_def
      demo_env_def expected_result_def reply_gui_def quiet_gui_def daemon_get_gui_timeout_def Let_def)

lemma demo_decisions:
  "decision_of default_config LEXEC_RESPONSE_NO_CLIENT = - 1"
  "decision_of g LEXEC_RESPONSE_ALLOW_ALWAYS = 1" "decision_of g LEXEC_RESPONSE_DENY = - 1"
  "decision_of g LEXEC_RESPONSE_ALLOW_ONCE = 0"
  by (simp_all add: decision_of_def message_codes daemon_get_default_deny_def default_config_def)

lemma demo_not_learning: "\<not> daemon_is_learning_mode default_config"
  by (simp add: daemon_is_learning_mode_def default_config_def)

lemma demo_batch: "accepted (buffer_length [(demo_event, env)]) [(demo_event, env)] = [(demo_event, env)]"
  by (simp add: buffer_length_def demo_event_def FAN_EVENT_OK_def fan_consts)

section \<open>A host to run it on\<close>

definition demo_host :: "option_arg list \<Rightarrow> loop_input list \<Rightarrow> host" where
  "demo_host opts inputs = \<lparr>ho_files = (\<lambda>p. No_entry), ho_options = opts, ho_euid = 0,
     ho_mkdir_lib = Mkdir_exists, ho_mkdir_run = Mkdir_ok, ho_calloc_table = True, ho_calloc_bloom = True,
     ho_ipc = \<lparr>ip_socket = 4, ip_bind = 0, ip_listen = 0, ip_thread = 0\<rparr>,
     ho_fan = \<lparr>fs_init = (\<lambda>flags. 3), fs_mark = (\<lambda>fd flags mask path. 0)\<rparr>,
     ho_daemonize = \<lparr>dz_fork1 = Fork_child, dz_setsid = True, dz_fork2 = Fork_child, dz_chdir = True\<rparr>,
     ho_inputs = inputs\<rparr>"

lemma demo_load:
  "load_config (ho_files (demo_host [] xs)) (ho_options (demo_host [] xs)) default_config =
     Ret (Args_ok default_config)"
  "load_config (ho_files (demo_host [Opt_foreground] xs)) (ho_options (demo_host [Opt_foreground] xs))
     default_config = Ret (Args_ok (default_config\<lparr>foreground := 1\<rparr>))"
  by (simp_all add: demo_host_def load_config_def parse_config_file_def)

text \<open>A run in which nothing happens but what \<open>inputs\<close> does to the loop without events.\<close>

lemma demo_main_ready:
  assumes "g = default_config \<or> g = default_config\<lparr>foreground := 1\<rparr>"
    and w: "whitelist_init sql (db_path g) whitelist_initial = (w0, 0)"
  obtains d where "main_setup sql g (demo_host opts xs) initial_monitor = Inr d"
    "main_scan n pad_api sql demo_os g d = Some d"
    "main_monitor g (demo_host opts xs) d = Inr (d, 3, [0])" "g_running d"
proof -
  let ?sv = "ipc_initial\<lparr>sv_server_fd := 4, sv_running := True\<rparr>"
  let ?d = "initial_monitor\<lparr>mo_whitelist := w0, mo_cache := demo_cache, mo_ipc := ?sv\<rparr>"
  have c: "cache_init True True 0 cache_zero = (demo_cache, 0)"
    by (simp add: demo_cache_def cache_init_def cache_zero_def Let_def)
  have sv: "ipc_server_init (ho_ipc (demo_host opts xs)) ipc_initial = (?sv, 0)"
    by (simp add: ipc_server_init_def demo_host_def Let_def)
  have ho: "ho_euid (demo_host opts xs) = 0" "create_directories (demo_host opts xs) = 0"
    "ho_calloc_table (demo_host opts xs)" "ho_calloc_bloom (demo_host opts xs)"
    by (simp_all add: demo_host_def create_directories_def)
  have s: "main_setup sql g (demo_host opts xs) initial_monitor = Inr ?d"
    using w c sv ho by (simp add: main_setup_def Let_def initial_monitor_def)
  have g: "do_scan g = 0" "learning_mode g = 0" "monitor_shared_libs g = 1"
    using assms(1) by (auto simp: default_config_def)
  have "main_scan n pad_api sql demo_os g ?d = Some ?d" using g by (simp add: main_scan_def)
  moreover have "main_monitor g (demo_host opts xs) ?d = Inr (?d, 3, [0])"
    using g by (simp add: main_monitor_def demo_host_def fanotify_init_exec_monitor_def
        fanotify_set_monitor_shared_libs_def initial_monitor_def fanotify_add_mount_def MONITOR_MOUNTS_def Let_def)
  ultimately show thesis using that [OF s] by (simp add: initial_monitor_def)
qed

lemma demo_daemonize: "daemonize (ho_daemonize (demo_host opts xs)) = None"
  by (simp add: demo_host_def daemonize_def)

text \<open>In the background with nothing to read it serves; in the foreground a signal ends it.\<close>

lemma demo_opens:
  "\<exists>w. whitelist_init ref_sqlite p whitelist_initial = (w, 0)"
  "\<exists>w. whitelist_init (reopen ref_sqlite p db) p whitelist_initial = (w, 0)"
  by (simp_all add: whitelist_init_def whitelist_initial_def ref_sqlite_def reopen_def Let_def)

lemma demo_main_serves_on:
  assumes "\<exists>w. whitelist_init sql (db_path default_config) whitelist_initial = (w, 0)"
  shows "\<exists>d. daemon_main n pad_api sql demo_os (demo_host [] [In_again]) = Ret (Serving d)"
proof -
  obtain w where w: "whitelist_init sql (db_path default_config) whitelist_initial = (w, 0)" using assms ..
  obtain d where d: "main_setup sql default_config (demo_host [] [In_again]) initial_monitor = Inr d"
    "main_scan n pad_api sql demo_os default_config d = Some d"
    "main_monitor default_config (demo_host [] [In_again]) d = Inr (d, 3, [0])" "g_running d"
    by (rule demo_main_ready [OF disjI1 [OF refl] w])
  have "foreground default_config = 0" "ho_inputs (demo_host [] [In_again]) = [In_again]"
    by (simp_all add: default_config_def demo_host_def)
  then show ?thesis
    using d by (simp add: daemon_main_def demo_load demo_daemonize Let_def)
qed

lemmas demo_main_serves = demo_main_serves_on [OF demo_opens(1)]
lemmas demo_main_serves_again = demo_main_serves_on [OF demo_opens(2)]

lemma demo_main_returns:
  "\<exists>d. daemon_main n pad_api ref_sqlite demo_os (demo_host [Opt_foreground] [In_stop]) = Ret (Returned 0 d)"
proof -
  let ?g = "default_config\<lparr>foreground := 1\<rparr>" and ?ho = "demo_host [Opt_foreground] [In_stop]"
  obtain w where w: "whitelist_init ref_sqlite (db_path ?g) whitelist_initial = (w, 0)"
    using demo_opens(1) ..
  obtain d where d: "main_setup ref_sqlite ?g ?ho initial_monitor = Inr d"
    "main_scan n pad_api ref_sqlite demo_os ?g d = Some d"
    "main_monitor ?g ?ho d = Inr (d, 3, [0])" "g_running d"
    by (rule demo_main_ready [OF disjI2 [OF refl] w])
  have "ho_inputs ?ho = [In_stop]" by (simp add: demo_host_def)
  then show ?thesis
    using d by (simp add: daemon_main_def demo_load Let_def fanotify_stop_def EXIT_SUCCESS_def)
qed

end
