(* ===== verification/Widgets.thy ===== *)
theory Widgets
  imports Lexec_Prelude
begin

text \<open>
  What the client builds out of GTK: widgets as values. A constructor stands for the call that
  creates the widget, its attributes for the calls that set them, in the order of the source;
  a grid holds its children with the cells they are attached to. The two labels that
  \<open>g_app\<close> points to are named, since their text changes later.
\<close>

datatype attribute =
  Row_spacing int
| Column_spacing int
| Margins int
| Halign_start
| Wrap
| Selectable
| Max_width_chars int

text \<open>\<open>gtk_grid_attach (grid, child, column, row, width, height)\<close>.\<close>

record cell =
  ce_column :: nat
  ce_row :: nat
  ce_width :: nat
  ce_height :: nat

datatype widget =
  Label "attribute list" string
| Status_label "attribute list"
| Stats_label "attribute list"
| Image string int
| Icon_button string
| Reconnect_button string
| Header_bar "widget list"
| Box int "attribute list" "widget list"
| Frame string widget
| Grid "attribute list" "(widget \<times> cell) list"
| Application_window string int int widget widget

definition attach :: "widget \<Rightarrow> nat \<Rightarrow> nat \<Rightarrow> nat \<Rightarrow> nat \<Rightarrow> widget \<times> cell" where
  "attach w column row width height =
     (w, \<lparr>ce_column = column, ce_row = row, ce_width = width, ce_height = height\<rparr>)"

section \<open>Layout\<close>

text \<open>Cells that share no square, and grids whose cells are pairwise so.\<close>

definition apart :: "cell \<Rightarrow> cell \<Rightarrow> bool" where
  "apart c d \<longleftrightarrow>
     ce_column c + ce_width c \<le> ce_column d \<or> ce_column d + ce_width d \<le> ce_column c \<or>
     ce_row c + ce_height c \<le> ce_row d \<or> ce_row d + ce_height d \<le> ce_row c"

fun pairwise_apart :: "cell list \<Rightarrow> bool" where
  "pairwise_apart [] = True"
| "pairwise_apart (c # cs) = (list_all (apart c) cs \<and> pairwise_apart cs)"

fun grids :: "widget \<Rightarrow> (widget \<times> cell) list list" where
  "grids (Header_bar ws) = concat (map grids ws)"
| "grids (Box sp as ws) = concat (map grids ws)"
| "grids (Frame t w) = grids w"
| "grids (Grid as cs) = cs # concat (map (\<lambda>(w, c). grids w) cs)"
| "grids (Application_window t x y h w) = grids h @ grids w"
| "grids _ = []"

definition laid_out :: "widget \<Rightarrow> bool" where
  "laid_out w \<longleftrightarrow> list_all (\<lambda>cs. pairwise_apart (map snd cs)) (grids w)"

text \<open>A square belongs to at most one child.\<close>

definition covers :: "cell \<Rightarrow> nat \<Rightarrow> nat \<Rightarrow> bool" where
  "covers c x y \<longleftrightarrow> ce_column c \<le> x \<and> x < ce_column c + ce_width c \<and>
     ce_row c \<le> y \<and> y < ce_row c + ce_height c"

lemma apart_covers: "apart c d \<Longrightarrow> covers c x y \<Longrightarrow> \<not> covers d x y"
  by (auto simp: apart_def covers_def)

lemma pairwise_apart_covers:
  "pairwise_apart cs \<Longrightarrow> i < length cs \<Longrightarrow> j < length cs \<Longrightarrow> covers (cs ! i) x y \<Longrightarrow> covers (cs ! j) x y \<Longrightarrow> i = j"
proof (induction cs arbitrary: i j)
  case Nil
  then show ?case by simp
next
  case (Cons c cs)
  have one: "\<not> (covers c x y \<and> covers (cs ! k) x y)" if "k < length cs" for k
    using that Cons.prems(1) apart_covers [of c "cs ! k"] by (auto simp: list_all_length)
  show ?case
    using Cons.prems Cons.IH one by (cases i; cases j) auto
qed

end
