(* ===== verification/Gui.thy ===== *)
theory Gui
  imports Ipc Widgets
begin

text \<open>
  \<open>src/src/gui/main.c\<close>: the client in the user's session. The state is \<open>g_app\<close> with what
  GTK and GLib keep for it: the open sockets, the live watches and timers, the dialogs on the
  screen, the text of the labels. \<open>gui_step\<close> is one dispatch of the main loop, with GLib's
  documented rule that a source whose callback returns false is removed. The dialog and the main
  window are values of \<open>Widgets\<close>, with the texts the source gives them; drawing them is GTK's.
\<close>

section \<open>Printing\<close>

fun dec_nat :: "nat \<Rightarrow> string" where
  "dec_nat n = (if n < 10 then [char_of (48 + n)] else dec_nat (n div 10) @ [char_of (48 + n mod 10)])"

declare dec_nat.simps [simp del]

definition dec_int :: "int \<Rightarrow> string" where
  "dec_int i = (if i < 0 then CHR ''-'' # dec_nat (nat (- i)) else dec_nat (nat i))"

definition line_break :: string where
  "line_break = [CHR 0x0A]"

section \<open>State\<close>

text \<open>
  A dialog on the screen: the data of its signal, the title of its window, its buttons with their
  response ids, the one that Enter presses, the widgets of its grid, and the texts made for it.
\<close>

record dialog =
  dl_request :: u32
  dl_window :: string
  dl_modal :: bool
  dl_on_top :: bool
  dl_urgent :: bool
  dl_buttons :: "(string \<times> int) list"
  dl_default :: int
  dl_content :: widget
  dl_title :: string
  dl_path :: string
  dl_hash :: string
  dl_parent :: string

record gui =
  gu_socket :: int
  gu_channel :: bool
  gu_watch :: nat
  gu_connected :: bool
  gu_minimized :: bool
  gu_allowed :: u64
  gu_denied :: u64
  gu_window :: "widget option"
  gu_visible :: bool
  gu_status_label :: "string option"
  gu_stats_label :: "string option"
  gu_open :: "int list"
  gu_watches :: "(nat \<times> int) list"
  gu_timers :: nat
  gu_dialogs :: "dialog list"
  gu_sent :: "(int \<times> exec_response) list"

definition gui_initial :: gui where
  "gui_initial = \<lparr>gu_socket = - 1, gu_channel = False, gu_watch = 0, gu_connected = False,
     gu_minimized = False, gu_allowed = 0, gu_denied = 0, gu_window = None, gu_visible = False,
     gu_status_label = None, gu_stats_label = None, gu_open = [], gu_watches = [], gu_timers = 0,
     gu_dialogs = [], gu_sent = []\<rparr>"

section \<open>Connection\<close>

text \<open>One attempt: what \<open>socket\<close> returns, whether \<open>connect\<close> succeeds, the id of the watch.\<close>

record attempt =
  at_socket :: int
  at_connect :: bool
  at_watch :: nat

definition connect_to_daemon :: "attempt \<Rightarrow> gui \<Rightarrow> gui \<times> int" where
  "connect_to_daemon a g =
     (if at_socket a = - 1 then (g, - 1)
      else if \<not> at_connect a then (g, - 1)
      else (g\<lparr>gu_socket := at_socket a, gu_connected := True, gu_channel := True,
              gu_watch := at_watch a, gu_open := gu_open g @ [at_socket a],
              gu_watches := gu_watches g @ [(at_watch a, at_socket a)]\<rparr>, 0))"

definition disconnect_from_daemon :: "gui \<Rightarrow> gui" where
  "disconnect_from_daemon g =
     (let g1 = (if 0 < gu_watch g
                then g\<lparr>gu_watches := filter (\<lambda>(w, s). w \<noteq> gu_watch g) (gu_watches g), gu_watch := 0\<rparr> else g);
          g2 = (if gu_channel g1 then g1\<lparr>gu_channel := False\<rparr> else g1);
          g3 = (if 0 \<le> gu_socket g2
                then g2\<lparr>gu_open := remove1 (gu_socket g2) (gu_open g2), gu_socket := - 1\<rparr> else g2)
      in g3\<lparr>gu_connected := False\<rparr>)"

definition send_response :: "bool \<Rightarrow> u32 \<Rightarrow> int \<Rightarrow> gui \<Rightarrow> gui" where
  "send_response write_ok request_id response g =
     (if \<not> gu_connected g then g
      else if \<not> write_ok then g
      else g\<lparr>gu_sent := gu_sent g @
        [(gu_socket g, \<lparr>rs_request_id = request_id, rs_response = response\<rparr>)]\<rparr>)"

section \<open>Labels and dialogs\<close>

text \<open>The bullet of the two texts is the three bytes of its UTF-8 encoding.\<close>

definition bullet :: string where
  "bullet = [CHR 0xE2, CHR 0x97, CHR 0x8F]"

definition status_text :: "bool \<Rightarrow> string" where
  "status_text connected =
     (if connected then ''<span color='green'>'' @ bullet @ '' Connected to daemon</span>''
      else ''<span color='red'>'' @ bullet @ '' Disconnected from daemon</span>'')"

definition stats_text :: "u64 \<Rightarrow> u64 \<Rightarrow> string" where
  "stats_text allowed denied =
     take 255 (''Allowed: '' @ dec_nat (unat allowed) @ '' | Denied: '' @ dec_nat (unat denied))"

definition update_status_display :: "gui \<Rightarrow> gui" where
  "update_status_display g =
     (let g1 = (if gu_status_label g \<noteq> None
                then g\<lparr>gu_status_label := Some (status_text (gu_connected g))\<rparr> else g)
      in if gu_stats_label g1 \<noteq> None
         then g1\<lparr>gu_stats_label := Some (stats_text (gu_allowed g1) (gu_denied g1))\<rparr> else g1)"

text \<open>The dialog is the \<open>i\<close>th on the screen; \<open>request_id\<close> is the data of its signal.\<close>

definition on_dialog_response :: "bool \<Rightarrow> nat \<Rightarrow> int \<Rightarrow> u32 \<Rightarrow> gui \<Rightarrow> gui" where
  "on_dialog_response write_ok i response_id request_id g =
     (let (daemon_response, g1) =
            (if response_id = 1 then (MSG_ALLOW_ONCE, g\<lparr>gu_allowed := gu_allowed g + 1\<rparr>)
             else if response_id = 2 then (MSG_ALLOW_ALWAYS, g\<lparr>gu_allowed := gu_allowed g + 1\<rparr>)
             else (MSG_DENY, g\<lparr>gu_denied := gu_denied g + 1\<rparr>));
          g2 = update_status_display (send_response write_ok request_id daemon_response g1)
      in g2\<lparr>gu_dialogs := take i (gu_dialogs g2) @ drop (Suc i) (gu_dialogs g2)\<rparr>)"

text \<open>\<open>snprintf\<close> into \<open>char buffer[4096]\<close>, the text of each label of the dialog.\<close>

definition path_markup :: "string \<Rightarrow> string" where
  "path_markup path = take 4095 (''<b>Path:</b>'' @ line_break @ ''<tt>'' @ path @ ''</tt>'')"

text \<open>The bullets of lists, U+2022.\<close>

definition small_bullet :: string where
  "small_bullet = [CHR 0xE2, CHR 0x80, CHR 0xA2]"

definition dialog_note :: string where
  "dialog_note = ''<small><span color='#888'>'' @
     small_bullet @ '' <b>Allow Once</b>: Run this time only, ask again next time'' @ line_break @
     small_bullet @ '' <b>Allow Always</b>: Add to whitelist, never ask again'' @ line_break @
     small_bullet @ '' <b>Deny</b>: Block this program from running'' @ ''</span></small>''"

definition show_permission_dialog :: "exec_request \<Rightarrow> gui \<Rightarrow> gui" where
  "show_permission_dialog request g =
     (let type_str = (if rq_is_shared_lib request \<noteq> 0 then ''Shared Library'' else ''Executable'');
          title = take 4095 (''<b><big>Unknown '' @ type_str @ '' Detected</big></b>'' @ line_break @
            ''<span color='#666'>A program not in your whitelist is trying to run.</span>'');
          path = path_markup (rq_path request);
          hash = take 4095 (''<b>SHA256:</b>'' @ line_break @ ''<tt><small>'' @ rq_hash request @ ''</small></tt>'');
          parent = take 4095 (''<b>Launched by:</b> '' @
            (if rq_parent_path request \<noteq> [] then rq_parent_path request else ''(unknown)'') @
            line_break @ ''<b>Process ID:</b> '' @ dec_int (rq_pid request));
          grid = Grid [Row_spacing 12, Column_spacing 15, Margins 20]
            [attach (Image ''dialog-warning'' 64) 0 0 1 5,
             attach (Label [Wrap, Halign_start] title) 1 0 1 1,
             attach (Label [Selectable, Wrap, Max_width_chars 60, Halign_start] path) 1 1 1 1,
             attach (Label [Selectable, Halign_start] hash) 1 2 1 1,
             attach (Label [Halign_start] parent) 1 3 1 1,
             attach (Label [Halign_start] dialog_note) 1 4 1 1];
          dl = \<lparr>dl_request = rq_request_id request, dl_window = ''Security Alert - Unknown Program'',
            dl_modal = True, dl_on_top = True, dl_urgent = True,
            dl_buttons = [(''Allow Once'', 1), (''Allow Always'', 2), (''Deny'', 3)], dl_default = 3,
            dl_content = grid, dl_title = title, dl_path = path, dl_hash = hash, dl_parent = parent\<rparr>
      in g\<lparr>gu_dialogs := gu_dialogs g @ [dl]\<rparr>)"

section \<open>The main window\<close>

definition main_window :: widget where
  "main_window = Application_window ''Linux Anti-Executable'' 500 400
     (Header_bar [Icon_button ''open-menu-symbolic''])
     (Box 20 [Margins 30]
       [Label [] (''<big><b>Linux Anti-Executable</b></big>'' @ line_break @
          ''<span color='#666'>Protecting your system from unauthorized executables</span>''),
        Frame ''Status'' (Grid [Row_spacing 10, Column_spacing 20, Margins 15]
          [attach (Label [Halign_start] ''Daemon:'') 0 0 1 1,
           attach (Status_label [Halign_start]) 1 0 1 1,
           attach (Label [Halign_start] ''Session:'') 0 1 1 1,
           attach (Stats_label [Halign_start]) 1 1 1 1,
           attach (Reconnect_button ''Reconnect'') 2 0 1 1]),
        Frame ''Information'' (Label [Wrap, Margins 15]
          (''<small>'' @
           ''This application monitors and controls which programs can run on your system.'' @ line_break @ line_break @
           small_bullet @ '' The daemon runs in the background as a system service'' @ line_break @
           small_bullet @ '' When an unknown program tries to run, you'll see a prompt'' @ line_break @
           small_bullet @ '' Programs you allow are added to your whitelist'' @ line_break @
           small_bullet @ '' Close this window to minimize to the system tray'' @
           ''</small>''))])"

section \<open>Callbacks\<close>

datatype request_read = Rq_whole exec_request | Rq_partial | Rq_closed | Rq_failed

text \<open>The callback of the watch; \<open>False\<close> is \<open>G_SOURCE_REMOVE\<close>.\<close>

definition on_socket_readable :: "bool \<Rightarrow> bool \<Rightarrow> request_read \<Rightarrow> gui \<Rightarrow> gui \<times> bool" where
  "on_socket_readable hup_or_err readable rd g =
     (let lost = (\<lambda>h. (update_status_display (disconnect_from_daemon h))\<lparr>gu_timers := gu_timers h + 1\<rparr>) in
      if hup_or_err then (lost g, False)
      else if readable then
        (case rd of
           Rq_whole request \<Rightarrow> (show_permission_dialog request g, True)
         | Rq_closed \<Rightarrow> (lost g, False)
         | Rq_partial \<Rightarrow> (g, True)
         | Rq_failed \<Rightarrow> (g, True))
      else (g, True))"

definition on_reconnect_clicked :: "attempt \<Rightarrow> gui \<Rightarrow> gui" where
  "on_reconnect_clicked a g =
     (if gu_connected g then g
      else case connect_to_daemon a g of
        (g1, rc) \<Rightarrow> if rc = 0 then update_status_display g1 else g1)"

definition on_window_close_request :: "gui \<Rightarrow> gui" where
  "on_window_close_request g = g\<lparr>gu_visible := False, gu_minimized := True\<rparr>"

definition build_main_window :: "gui \<Rightarrow> gui" where
  "build_main_window g = update_status_display
     (g\<lparr>gu_window := Some main_window, gu_status_label := Some [], gu_stats_label := Some ''Allowed: 0 | Denied: 0''\<rparr>)"

definition on_activate :: "attempt \<Rightarrow> gui \<Rightarrow> gui" where
  "on_activate a g =
     (let g1 = (if gu_window g = None then build_main_window g else g);
          g2 = (if \<not> gu_connected g1
                then update_status_display
                  (case connect_to_daemon a g1 of
                     (h, rc) \<Rightarrow> if rc \<noteq> 0 then h\<lparr>gu_timers := gu_timers h + 1\<rparr> else h)
                else g1)
      in if \<not> gu_minimized g2 then g2\<lparr>gu_visible := True\<rparr> else g2)"

definition on_shutdown :: "gui \<Rightarrow> gui" where
  "on_shutdown g = disconnect_from_daemon g"

section \<open>The main loop\<close>

datatype gui_event =
  Gev_activate attempt
| Gev_socket nat bool bool request_read
| Gev_timer attempt
| Gev_reconnect attempt
| Gev_dialog bool nat int
| Gev_close

text \<open>
  A socket event is dispatched to a live watch only, a timer fires only where one is pending;
  \<open>connect_to_daemon\<close> as the timer's callback is asked again while what it returns is not 0.
\<close>

fun gui_step :: "gui_event \<Rightarrow> gui \<Rightarrow> gui" where
  "gui_step (Gev_activate a) g = on_activate a g"
| "gui_step (Gev_socket w hup rdy rd) g =
     (if w \<in> fst ` set (gu_watches g)
      then (case on_socket_readable hup rdy rd g of
              (g', keep) \<Rightarrow> if keep then g'
                            else g'\<lparr>gu_watches := filter (\<lambda>(v, s). v \<noteq> w) (gu_watches g')\<rparr>)
      else g)"
| "gui_step (Gev_timer a) g =
     (if 0 < gu_timers g
      then (case connect_to_daemon a g of
              (g', rc) \<Rightarrow> if rc \<noteq> 0 then g' else g'\<lparr>gu_timers := gu_timers g' - 1\<rparr>)
      else g)"
| "gui_step (Gev_reconnect a) g = on_reconnect_clicked a g"
| "gui_step (Gev_dialog ok i b) g =
     (if i < length (gu_dialogs g) then on_dialog_response ok i b (dl_request (gu_dialogs g ! i)) g else g)"
| "gui_step Gev_close g = on_window_close_request g"

definition gui_run :: "gui_event list \<Rightarrow> gui \<Rightarrow> gui" where
  "gui_run es g = fold gui_step es g"

text \<open>
  \<open>main\<close>: GTK activates the application, runs the main loop over the events that follow, and
  emits "shutdown" at its end; \<open>status\<close> is what \<open>g_application_run\<close> returns.
\<close>

definition gui_main :: "attempt \<Rightarrow> gui_event list \<Rightarrow> int \<Rightarrow> gui \<times> int" where
  "gui_main a es status = (on_shutdown (gui_run (Gev_activate a # es) gui_initial), status)"

section \<open>Invariants\<close>

lemmas gui_defs = connect_to_daemon_def disconnect_from_daemon_def on_socket_readable_def
  on_reconnect_clicked_def on_window_close_request_def build_main_window_def on_activate_def
  on_shutdown_def on_dialog_response_def send_response_def show_permission_dialog_def

lemma update_status_frame [simp]:
  "gu_socket (update_status_display g) = gu_socket g" "gu_channel (update_status_display g) = gu_channel g"
  "gu_watch (update_status_display g) = gu_watch g" "gu_connected (update_status_display g) = gu_connected g"
  "gu_minimized (update_status_display g) = gu_minimized g" "gu_allowed (update_status_display g) = gu_allowed g"
  "gu_denied (update_status_display g) = gu_denied g" "gu_window (update_status_display g) = gu_window g"
  "gu_visible (update_status_display g) = gu_visible g" "gu_open (update_status_display g) = gu_open g"
  "gu_watches (update_status_display g) = gu_watches g" "gu_timers (update_status_display g) = gu_timers g"
  "gu_dialogs (update_status_display g) = gu_dialogs g" "gu_sent (update_status_display g) = gu_sent g"
  by (simp_all add: update_status_display_def Let_def)

text \<open>The descriptors and watch ids the system gives out are proper ones.\<close>

definition attempt_ok :: "attempt \<Rightarrow> bool" where
  "attempt_ok a \<longleftrightarrow> - 1 \<le> at_socket a \<and> 0 < at_watch a"

fun event_ok :: "gui_event \<Rightarrow> bool" where
  "event_ok (Gev_activate a) = attempt_ok a"
| "event_ok (Gev_timer a) = attempt_ok a"
| "event_ok (Gev_reconnect a) = attempt_ok a"
| "event_ok _ = True"

definition gui_ok :: "gui \<Rightarrow> bool" where
  "gui_ok g \<longleftrightarrow> (gu_connected g \<longleftrightarrow> 0 \<le> gu_socket g) \<and> gu_channel g = gu_connected g \<and>
     (if gu_connected g then 0 < gu_watch g \<and> gu_socket g \<in> set (gu_open g) else gu_watch g = 0)"

lemma gui_initial_ok: "gui_ok gui_initial"
  by (simp add: gui_ok_def gui_initial_def)

lemma disconnect_ok [simp]: "gui_ok (disconnect_from_daemon g)"
  if "gui_ok g"
  using that by (auto simp: gui_ok_def disconnect_from_daemon_def Let_def)

lemma gui_ok_cong:
  "gu_connected g' = gu_connected g \<Longrightarrow> gu_socket g' = gu_socket g \<Longrightarrow> gu_channel g' = gu_channel g \<Longrightarrow>
   gu_watch g' = gu_watch g \<Longrightarrow> gu_open g' = gu_open g \<Longrightarrow> gui_ok g' = gui_ok g"
  by (simp add: gui_ok_def)

lemma gui_ok_frames [simp]:
  "gui_ok (update_status_display g) = gui_ok g" "gui_ok (show_permission_dialog rq g) = gui_ok g"
  "gui_ok (g\<lparr>gu_timers := n\<rparr>) = gui_ok g" "gui_ok (g\<lparr>gu_watches := ws\<rparr>) = gui_ok g"
  "gui_ok (g\<lparr>gu_visible := vis\<rparr>) = gui_ok g" "gui_ok (on_window_close_request g) = gui_ok g"
  "gui_ok (build_main_window g) = gui_ok g" "gui_ok (on_dialog_response ok i b rid g) = gui_ok g"
  by (rule gui_ok_cong; simp add: gui_defs Let_def)+

lemma connect_ok: "gui_ok g \<Longrightarrow> attempt_ok a \<Longrightarrow> gui_ok (fst (connect_to_daemon a g))"
  by (auto simp: gui_ok_def connect_to_daemon_def attempt_ok_def)

lemma gui_step_ok: "gui_ok g \<Longrightarrow> event_ok e \<Longrightarrow> gui_ok (gui_step e g)"
proof (cases e)
  case (Gev_socket w hup rdy rd)
  then show "gui_ok g \<Longrightarrow> gui_ok (gui_step e g)"
    by (auto simp: on_socket_readable_def Let_def split: request_read.split)
qed (auto simp: on_activate_def on_reconnect_clicked_def Let_def case_prod_beta intro!: connect_ok)

text \<open>One connection at most, which holds while no timer is pending beside a connection.\<close>

definition single_connection :: "gui \<Rightarrow> bool" where
  "single_connection g \<longleftrightarrow> gui_ok g \<and>
     gu_open g = (if gu_connected g then [gu_socket g] else []) \<and>
     gu_watches g = (if gu_connected g then [(gu_watch g, gu_socket g)] else []) \<and>
     gu_timers g \<le> 1 \<and> (gu_connected g \<longrightarrow> gu_timers g = 0)"

fun manual :: "gui_event \<Rightarrow> bool" where
  "manual (Gev_activate a) = True"
| "manual (Gev_reconnect a) = True"
| "manual _ = False"

text \<open>Only these fields matter.\<close>

definition wiring :: "gui \<Rightarrow> int \<times> bool \<times> nat \<times> bool \<times> int list \<times> (nat \<times> int) list \<times> nat" where
  "wiring g = (gu_socket g, gu_channel g, gu_watch g, gu_connected g, gu_open g, gu_watches g, gu_timers g)"

lemma single_cong: "wiring g' = wiring g \<Longrightarrow> single_connection g' = single_connection g"
  by (simp add: single_connection_def gui_ok_def wiring_def)

lemma connect_cases:
  obtains (failed) "connect_to_daemon a g = (g, - 1)"
  | (connected) g' where "connect_to_daemon a g = (g', 0)" "at_socket a \<noteq> - 1"
    "wiring g' = (at_socket a, True, at_watch a, True, gu_open g @ [at_socket a],
       gu_watches g @ [(at_watch a, at_socket a)], gu_timers g)"
    "gu_status_label g' = gu_status_label g" "gu_minimized g' = gu_minimized g"
proof (cases "at_socket a = - 1 \<or> \<not> at_connect a")
  case True
  then show thesis using failed by (auto simp: connect_to_daemon_def)
next
  case False
  then show thesis using connected by (simp add: connect_to_daemon_def wiring_def)
qed

lemma single_connected:
  assumes "single_connection g" "\<not> gu_connected g" "attempt_ok a" "at_socket a \<noteq> - 1"
    and "wiring g' = (at_socket a, True, at_watch a, True, gu_open g @ [at_socket a],
       gu_watches g @ [(at_watch a, at_socket a)], 0)"
  shows "single_connection g'"
  using assms by (auto simp: single_connection_def gui_ok_def attempt_ok_def wiring_def)

lemma single_lost:
  assumes "single_connection g" "gu_connected g"
  shows "single_connection ((update_status_display (disconnect_from_daemon g))
    \<lparr>gu_timers := gu_timers g + 1, gu_watches := filter f (gu_watches (disconnect_from_daemon g))\<rparr>)"
  using assms by (auto simp: single_connection_def gui_ok_def disconnect_from_daemon_def Let_def)

lemma single_socket_event:
  assumes "single_connection g"
  shows "single_connection (gui_step (Gev_socket w hup rdy rd) g)"
proof (cases "w \<in> fst ` set (gu_watches g)")
  case True
  then have c: "gu_connected g" using assms by (auto simp: single_connection_def split: if_splits)
  have "single_connection (show_permission_dialog rq g)" for rq
    using assms by (subst single_cong [where g = g]) (simp_all add: wiring_def show_permission_dialog_def Let_def)
  then show ?thesis
    using True assms single_lost [OF assms c]
    by (auto simp: on_socket_readable_def Let_def split: request_read.split)
qed (use assms in simp)

lemma single_try:
  assumes "single_connection g" "gu_timers g = 0" "attempt_ok a"
  shows "single_connection (on_reconnect_clicked a g)" "single_connection (on_activate a g)"
proof -
  have upd: "single_connection (update_status_display h) = single_connection h" for h
    by (rule single_cong) (simp add: wiring_def)
  have built: "single_connection (build_main_window h) = single_connection h" for h
    by (rule single_cong) (simp add: wiring_def build_main_window_def)
  have vis: "single_connection (h\<lparr>gu_visible := b\<rparr>) = single_connection h" for h b
    by (rule single_cong) (simp add: wiring_def)
  have conn: "single_connection (fst (connect_to_daemon a h))"
    and fail: "snd (connect_to_daemon a h) \<noteq> 0 \<Longrightarrow>
      single_connection ((fst (connect_to_daemon a h))\<lparr>gu_timers := gu_timers (fst (connect_to_daemon a h)) + 1\<rparr>)"
    if h: "single_connection h" "gu_timers h = 0" "\<not> gu_connected h" for h
  proof -
    show "single_connection (fst (connect_to_daemon a h))"
      using h by (cases rule: connect_cases [of a h]) (auto intro: single_connected [OF _ _ assms(3)])
    show "snd (connect_to_daemon a h) \<noteq> 0 \<Longrightarrow>
      single_connection ((fst (connect_to_daemon a h))\<lparr>gu_timers := gu_timers (fst (connect_to_daemon a h)) + 1\<rparr>)"
      using h by (cases rule: connect_cases [of a h]) (auto simp: single_connection_def gui_ok_def)
  qed
  show "single_connection (on_reconnect_clicked a g)"
    using assms(1,2) conn [of g] by (simp add: on_reconnect_clicked_def upd case_prod_beta)
  define h where "h = (if gu_window g = None then build_main_window g else g)"
  have h: "single_connection h" "gu_timers h = 0"
    using assms(1,2) built by (simp_all add: h_def build_main_window_def)
  define k where "k = (if gu_connected h then h
    else update_status_display (if snd (connect_to_daemon a h) \<noteq> 0
      then (fst (connect_to_daemon a h))\<lparr>gu_timers := gu_timers (fst (connect_to_daemon a h)) + 1\<rparr>
      else fst (connect_to_daemon a h)))"
  have "on_activate a g = (if gu_minimized k then k else k\<lparr>gu_visible := True\<rparr>)"
    by (simp add: on_activate_def h_def k_def Let_def case_prod_beta)
  moreover have "single_connection k"
    using h conn [of h] fail [of h] by (simp add: k_def upd)
  ultimately show "single_connection (on_activate a g)" by (simp add: vis)
qed

lemma single_timer:
  assumes "single_connection g" "attempt_ok a"
  shows "single_connection (gui_step (Gev_timer a) g)"
proof (cases "0 < gu_timers g")
  case True
  then have c: "\<not> gu_connected g" "gu_timers g = 1" using assms(1) by (auto simp: single_connection_def)
  show ?thesis
  proof (cases rule: connect_cases [of a g])
    case failed
    then show ?thesis using assms by simp
  next
    case (connected g')
    then have "wiring (g'\<lparr>gu_timers := gu_timers g' - 1\<rparr>) = (at_socket a, True, at_watch a, True,
        gu_open g @ [at_socket a], gu_watches g @ [(at_watch a, at_socket a)], 0)"
      using c(2) by (simp add: wiring_def)
    then show ?thesis
      using connected True single_connected [OF assms(1) c(1) assms(2) connected(2)] by simp
  qed
qed (use assms in simp)

lemma gui_step_single:
  assumes "single_connection g" "event_ok e" "manual e \<longrightarrow> gu_timers g = 0"
  shows "single_connection (gui_step e g)"
proof (cases e)
  case (Gev_dialog ok i b)
  have "single_connection (on_dialog_response ok i b rid g)" for rid
    using assms(1)
    by (subst single_cong [where g = g]) (simp_all add: wiring_def on_dialog_response_def send_response_def Let_def)
  then show ?thesis using Gev_dialog assms(1) by simp
next
  case Gev_close
  then show ?thesis using assms(1)
    by (subst single_cong [where g = g]) (simp_all add: wiring_def on_window_close_request_def)
qed (use assms single_try single_timer single_socket_event in \<open>auto simp del: gui_step.simps(2,3)\<close>)

lemma hidden_frames [simp]:
  "gu_minimized (fst (connect_to_daemon a g)) = gu_minimized g"
  "gu_visible (fst (connect_to_daemon a g)) = gu_visible g"
  "gu_minimized (disconnect_from_daemon g) = gu_minimized g"
  "gu_visible (disconnect_from_daemon g) = gu_visible g"
  "gu_minimized (build_main_window g) = gu_minimized g" "gu_visible (build_main_window g) = gu_visible g"
  "gu_minimized (show_permission_dialog rq g) = gu_minimized g"
  "gu_visible (show_permission_dialog rq g) = gu_visible g"
  "gu_minimized (on_dialog_response ok i b rid g) = gu_minimized g"
  "gu_visible (on_dialog_response ok i b rid g) = gu_visible g"
  by (simp_all add: connect_to_daemon_def disconnect_from_daemon_def build_main_window_def
      show_permission_dialog_def on_dialog_response_def send_response_def Let_def)

lemma gui_step_hidden:
  assumes "gu_minimized g \<and> \<not> gu_visible g"
  shows "gu_minimized (gui_step e g) \<and> \<not> gu_visible (gui_step e g)"
proof (cases e)
  case (Gev_activate a)
  then show ?thesis using assms by (auto simp: on_activate_def case_prod_beta Let_def)
next
  case (Gev_socket w hup rdy rd)
  then show ?thesis using assms by (auto simp: on_socket_readable_def Let_def split: request_read.split)
qed (use assms in \<open>simp_all add: on_reconnect_clicked_def on_window_close_request_def case_prod_beta\<close>)

lemma gui_run_keeps:
  assumes "\<And>g e. P g \<Longrightarrow> ok e \<Longrightarrow> P (gui_step e g)"
  shows "P g \<Longrightarrow> \<forall>e \<in> set es. ok e \<Longrightarrow> P (gui_run es g)"
  using assms by (induction es arbitrary: g) (auto simp: gui_run_def)

text \<open>Runs in which the user asks for a connection only while none is being retried.\<close>

fun calm :: "gui_event list \<Rightarrow> gui \<Rightarrow> bool" where
  "calm [] g = True"
| "calm (e # es) g = (event_ok e \<and> (manual e \<longrightarrow> gu_timers g = 0) \<and> calm es (gui_step e g))"

lemma calm_single: "calm es g \<Longrightarrow> single_connection g \<Longrightarrow> single_connection (gui_run es g)"
  by (induction es g rule: calm.induct) (auto simp: gui_run_def gui_step_single simp del: gui_step.simps)

lemma gui_initial_single: "single_connection gui_initial"
  using gui_initial_ok by (simp add: single_connection_def) (simp add: gui_initial_def)

section \<open>The client as a whole\<close>

lemma disconnect_single:
  "single_connection g \<Longrightarrow> gu_open (disconnect_from_daemon g) = [] \<and> gu_watches (disconnect_from_daemon g) = [] \<and>
   \<not> gu_connected (disconnect_from_daemon g)"
  by (auto simp: single_connection_def gui_ok_def disconnect_from_daemon_def Let_def split: if_splits)

lemma gui_main_ends:
  assumes "calm es (gui_step (Gev_activate a) gui_initial)" "attempt_ok a"
  shows "single_connection (gui_run (Gev_activate a # es) gui_initial)"
proof (rule calm_single [OF _ gui_initial_single])
  have "gu_timers gui_initial = 0" by (simp add: gui_initial_def)
  then show "calm (Gev_activate a # es) gui_initial" using assms by (simp del: gui_step.simps)
qed

section \<open>The dialog\<close>

lemma main_window_laid_out: "laid_out main_window"
  by (simp add: laid_out_def main_window_def attach_def apart_def)

lemma dialog_shown:
  obtains dl where "show_permission_dialog rq g = g\<lparr>gu_dialogs := gu_dialogs g @ [dl]\<rparr>"
    "dl_request dl = rq_request_id rq" "dl_default dl = 3"
    "dl_buttons dl = [(''Allow Once'', 1), (''Allow Always'', 2), (''Deny'', 3)]"
proof -
  have "\<exists>dl. show_permission_dialog rq g = g\<lparr>gu_dialogs := gu_dialogs g @ [dl]\<rparr> \<and>
    dl_request dl = rq_request_id rq \<and> dl_default dl = 3 \<and>
    dl_buttons dl = [(''Allow Once'', 1), (''Allow Always'', 2), (''Deny'', 3)]"
    unfolding show_permission_dialog_def Let_def by (intro exI conjI, rule refl) simp_all
  then show thesis using that by blast
qed

lemma dialog_laid_out: "gu_dialogs (show_permission_dialog rq g) = gu_dialogs g @ [dl] \<Longrightarrow> laid_out (dl_content dl)"
  by (auto simp: show_permission_dialog_def Let_def laid_out_def attach_def apart_def)

end
