(* ===== verification/Component_Properties.thy ===== *)
theory Component_Properties
  imports Example Gui
begin

text \<open>
  The properties of the single components, with their witnesses: hashing, cache, database,
  scan, configuration, IPC server, file tests of the handler, client.
\<close>

section \<open>Hashing\<close>

text \<open>
  C15: whatever the kernel's reads deliver at a time, a digest that is returned is the
  hexadecimal digest of the whole content, and the position of the file is restored.
\<close>

theorem hash_is_of_whole_content:
  assumes "sha256_spec api fed H" "hash_fd api f = (f', Some hex)"
  shows "hex = bytes_to_hex (H (fd_content f)) \<and> length hex = 64 \<and> set hex \<subseteq> set hex_chars \<and>
    fd_pos f' = fd_pos f"
proof -
  have "sha_init api \<noteq> None"
    using assms(2) by (cases "sha_init api") (auto simp: hash_fd_def Let_def split: prod.splits bool.splits)
  then show ?thesis
    using hash_fd_content [OF assms] hash_fd_position [OF assms(2)] hash_fd_hex_digits [OF assms(2)] by blast
qed

lemma hash_is_of_whole_content_witness:
  "\<exists>f' hex. hash_fd pad_api \<lparr>fd_content = [1, 2, 3, 255], fd_pos = 2, fd_seekable = True,
       fd_reads = [Rd_limit 0, Rd_limit 1]\<rparr> = (f', Some hex) \<and>
     hex = bytes_to_hex (pad_digest [1, 2, 3, 255]) \<and> fd_pos f' = 2"
proof -
  let ?f = "\<lparr>fd_content = [1, 2, 3, 255], fd_pos = 2, fd_seekable = True,
       fd_reads = [Rd_limit 0, Rd_limit 1]\<rparr> :: fdesc"
  obtain f' hex where h: "hash_fd pad_api ?f = (f', Some hex)"
    using hash_fd_total [OF pad_api_total, of ?f] by auto
  then show ?thesis using hash_is_of_whole_content [OF pad_api_spec h] by simp
qed

text \<open>
  Hashing a seekable file no read of which fails succeeds, however short its reads are.
\<close>

theorem hash_succeeds:
  assumes "sha256_total api" "fd_seekable f" "Rd_error \<notin> set (fd_reads f)"
  shows "\<exists>f' hex. hash_fd api f = (f', Some hex)"
  using assms by (rule hash_fd_total)

lemma hash_succeeds_witness:
  "\<exists>f' hex. hash_fd pad_api demo_file = (f', Some hex)"
  by (rule hash_succeeds [OF pad_api_total]) (simp_all add: demo_file_def)

section \<open>Cache\<close>

text \<open>The hexadecimal form of a 32-byte digest is read back to the same bytes.\<close>

theorem hex_round_trip:
  assumes "length d = 32"
  shows "hex_to_bytes (bytes_to_hex d) = Some d"
  using assms by (rule hex_to_bytes_to_hex)

lemma hex_round_trip_witness:
  "hex_to_bytes (bytes_to_hex (replicate 31 0xab @ [0x09])) = Some (replicate 31 0xab @ [0x09])"
  by (rule hex_round_trip) simp

text \<open>
  C12: a look-up answers membership exactly: the bloom filter never hides an entry, and a bit
  pattern it has by accident is caught by the chain.
\<close>

theorem cache_check_is_membership:
  assumes "cache_wf c" "hex_key h"
  shows "\<exists>c'. cache_check c h = Ret (c', if h \<in> cache_members c then 1 else 0) \<and> cache_wf c' \<and>
    cache_members c' = cache_members c \<and> lookups c' = lookups c + 1"
proof -
  obtain d where d: "length d = 32" "h = bytes_to_hex d" "length h = 64" "hex_to_bytes h = Some d"
    using assms(2) by (rule hex_keyE)
  show ?thesis
    using cache_check_exact [OF assms(1) d(3,4)] cache_members_iff [OF assms(1) d(1)] d(2)
    by (auto simp: cache_members_def)
qed

lemma demo_key: "hex_key demo_hash"
  unfolding hex_key_def demo_hash_def by (rule exI [of _ "pad_digest elf_magic"]) (simp add: pad_digest_def)

lemma cache_check_is_membership_witness:
  "\<exists>c'. cache_check demo_cache demo_hash = Ret (c', 0) \<and> cache_members c' = {}"
  using cache_check_is_membership [OF demo_cache_wf(1) demo_key]
  by (auto simp: cache_members_def demo_cache_wf)

text \<open>
  C13: an addition is refused exactly where the cache is full or a new entry cannot be
  allocated; otherwise it adds exactly its digest. The database is written to only for a new
  entry with \<open>persist\<close>.
\<close>

theorem cache_add_is_insertion:
  assumes "cache_wf c" "hex_key h"
  shows "\<exists>c' w' r. cache_add api os malloc_ok c w h path persist = Ret (c', w', r) \<and> cache_wf c' \<and>
    (r = 0 \<longleftrightarrow> \<not> cache_full c \<and> (h \<in> cache_members c \<or> malloc_ok)) \<and>
    cache_members c' = (if r = 0 then insert h (cache_members c) else cache_members c) \<and>
    w' = (if r = 0 \<and> h \<notin> cache_members c \<and> persist \<noteq> 0
          then fst (whitelist_add api os w h path 0) else w)"
proof -
  obtain d where d: "length d = 32" "h = bytes_to_hex d" "length h = 64" "hex_to_bytes h = Some d"
    using assms(2) by (rule hex_keyE)
  obtain c' w' r where r: "cache_add api os malloc_ok c w h path persist = Ret (c', w', r)" "cache_wf c'"
    "r = 0 \<longleftrightarrow> \<not> cache_full c \<and> (d \<in> cache_digests c \<or> malloc_ok)"
    "cache_digests c' = (if r = 0 then insert d (cache_digests c) else cache_digests c)"
    "w' = (if r = 0 \<and> d \<notin> cache_digests c \<and> persist \<noteq> 0
          then fst (whitelist_add api os w h path 0) else w)"
    using cache_add_exact [OF assms(1) d(3,4), of api os malloc_ok w path persist] by blast
  have mem: "d \<in> cache_digests c \<longleftrightarrow> h \<in> cache_members c"
    using cache_members_iff [OF assms(1) d(1)] d(2) by simp
  have "cache_members c' = (if r = 0 then insert h (cache_members c) else cache_members c)"
    by (simp add: cache_members_def r(4) d(2))
  then show ?thesis using r(1-3,5) unfolding mem by blast
qed

lemma cache_add_is_insertion_witness:
  "\<exists>c' w'. cache_add ref_sqlite demo_os True demo_cache demo_whitelist demo_hash ''/opt/tool'' 0 = Ret (c', w', 0) \<and>
     cache_members c' = {demo_hash} \<and> w' = demo_whitelist"
proof -
  have "\<not> cache_full demo_cache"
    by (simp add: cache_full_def demo_cache_def cache_init_def cache_zero_def Let_def)
  moreover have "cache_members demo_cache = {}" by (simp add: cache_members_def demo_cache_wf)
  ultimately show ?thesis
    using cache_add_is_insertion [OF demo_cache_wf(1) demo_key, of ref_sqlite demo_os True demo_whitelist
        "''/opt/tool''" 0]
    by auto
qed

text \<open>C14: a removal succeeds exactly for a member and takes exactly its digest away.\<close>

theorem cache_remove_is_deletion:
  assumes "cache_wf c" "hex_key h"
  shows "\<exists>c' r. cache_remove c h = Ret (c', r) \<and> cache_wf c' \<and>
    r = (if h \<in> cache_members c then 0 else - 1) \<and> cache_members c' = cache_members c - {h}"
proof -
  obtain d where d: "length d = 32" "h = bytes_to_hex d" "length h = 64" "hex_to_bytes h = Some d"
    using assms(2) by (rule hex_keyE)
  obtain c' r where r: "cache_remove c h = Ret (c', r)" "cache_wf c'"
    "r = (if d \<in> cache_digests c then 0 else - 1)" "cache_digests c' = cache_digests c - {d}"
    using cache_remove_exact [OF assms(1) d(3,4)] by blast
  have "cache_members c' = cache_members c - {h}"
    unfolding cache_members_def [of c'] r(4) d(2) by (rule cache_members_remove [OF assms(1) d(1)])
  then show ?thesis using r(1-3) cache_members_iff [OF assms(1) d(1)] d(2) by simp
qed

lemma cache_remove_is_deletion_witness:
  "\<exists>c' w' c''. cache_add ref_sqlite demo_os True demo_cache demo_whitelist demo_hash [] 0 = Ret (c', w', 0) \<and>
     cache_remove c' demo_hash = Ret (c'', 0) \<and> cache_members c'' = {}"
proof -
  have e: "cache_members demo_cache = {}" by (simp add: cache_members_def demo_cache_wf)
  have "\<not> cache_full demo_cache"
    by (simp add: cache_full_def demo_cache_def cache_init_def cache_zero_def Let_def)
  moreover obtain c' r where a: "cs_add ref_sqlite demo_os True demo_whitelist [] demo_cache demo_hash = (c', r)"
    by fastforce
  moreover obtain d where d: "length demo_hash = 64" "hex_to_bytes demo_hash = Some d"
    using demo_key by (rule hex_keyE)
  ultimately obtain w' where w': "cache_add ref_sqlite demo_os True demo_cache demo_whitelist demo_hash [] 0 = Ret (c', w', 0)" "r"
    using cache_add_exact [OF demo_cache_wf(1) d, of ref_sqlite demo_os True demo_whitelist "[]" 0]
    by (auto simp: cs_add_def)
  then have "cache_wf c'" "cache_members c' = {demo_hash}"
    using cs_add_law [OF demo_cache_wf(1) demo_key a] e by simp_all
  then show ?thesis using cache_remove_is_deletion [OF _ demo_key, of c'] w'(1) by auto
qed

text \<open>Clearing the cache leaves it well formed and empty: every later look-up misses.\<close>

theorem cache_clear_forgets:
  assumes "cache_wf c" "hex_key h"
  shows "cache_wf (cache_clear c) \<and> (\<exists>c'. cache_check (cache_clear c) h = Ret (c', 0))"
proof -
  have "cache_wf (cache_clear c)" "cache_members (cache_clear c) = {}"
    using cache_clear_wf [OF assms(1)] by (simp_all add: cache_members_def)
  then show ?thesis using cache_check_cs [OF _ assms(2)] by auto
qed

lemma cache_clear_forgets_witness:
  "\<exists>c'. cache_check (cache_clear demo_cache) demo_hash = Ret (c', 0)"
  using cache_clear_forgets [OF demo_cache_wf(1) demo_key] by blast

section \<open>Database\<close>



text \<open>A removal from a working database takes exactly its digest out of every later check.\<close>

theorem whitelist_remove_is_visible:
  assumes "sqlite_spec api tbl" "sqlite_never_fails api" "whitelist_ready w"
    and "whitelist_remove api w h = (w', 0)"
  shows "wl_table tbl w' = (wl_table tbl w)(h := None) \<and>
    snd (whitelist_check api w' k) = (if k \<noteq> h \<and> k \<in> dom (wl_table tbl w) then 1 else 0)"
proof -
  have ready: "whitelist_ready w'"
    using same_handles_ready [OF whitelist_remove_frame, of api w h] assms(3,4) by simp
  obtain w'' q where c: "whitelist_check api w' k = (w'', q)" by fastforce
  show ?thesis
    using whitelist_remove_table [OF assms(1,4)] whitelist_check_exact [OF assms(1,2) ready c] c by auto
qed

lemma whitelist_remove_is_visible_witness:
  "\<exists>w'. whitelist_remove ref_sqlite demo_whitelist ''ab'' = (w', 0) \<and>
    snd (whitelist_check ref_sqlite w' ''ab'') = 0"
proof -
  obtain w' where "whitelist_remove ref_sqlite demo_whitelist ''ab'' = (w', 0)"
    by (simp add: whitelist_remove_def demo_whitelist_def whitelist_init_def whitelist_initial_def
        ref_sqlite_def ref_step_def whitelist_count_def Let_def)
  then show ?thesis
    using whitelist_remove_is_visible [OF ref_sqlite_spec ref_sqlite_never_fails demo_whitelist_table(2)]
    by fastforce
qed

section \<open>Scan\<close>

text \<open>One directory with an ELF file in it.\<close>

definition demo_tree :: os where
  "demo_tree = demo_os\<lparr>
     os_opendir := (\<lambda>p. if p = ''/bin'' then Some [''.'', ''..'', ''ls''] else None),
     os_lstat := (\<lambda>p. if p = ''/bin/ls'' then Some 0x81ED else None),
     os_open := (\<lambda>p. if p = ''/bin/ls'' then Some demo_file else None)\<rparr>"

lemma demo_tree_fits: "paths_fit demo_tree" "opens_at_start demo_tree"
  by (auto simp: paths_fit_def opens_at_start_def demo_tree_def demo_os_def demo_file_def)

lemma demo_tree_entry: "under demo_tree 1 ''/bin'' ''/bin/ls''"
  using under.entry [of demo_tree "''/bin''" "[''.'', ''..'', ''ls'']" "''ls''" "0x81ED" 1]
  by (simp add: demo_tree_def demo_os_def child_path_def S_ISDIR_def)

lemma demo_tree_elf: "is_executable_file demo_tree ''/bin/ls'' 0x81ED"
  "hash_file pad_api (os_open demo_tree) ''/bin/ls'' = Some demo_hash"
proof -
  have "fread demo_file 4 = elf_magic"
    by (simp add: fread.simps demo_file_def read_fd_def elf_magic_def Let_def)
  then show "is_executable_file demo_tree ''/bin/ls'' 0x81ED"
    by (simp add: is_executable_file_def S_ISREG_def demo_tree_def demo_os_def)
  show "hash_file pad_api (os_open demo_tree) ''/bin/ls'' = Some demo_hash"
    using pad_hash_fd [of demo_file]
    by (simp add: hash_file_def demo_tree_def demo_os_def demo_hash_def) (simp add: demo_file_def)
qed

text \<open>
  C18: a scan ends, with nested calls bounded by the length of a path, where no directory has a
  path so long that \<open>snprintf\<close> would cut its entries' paths.
\<close>

theorem scan_terminates:
  assumes "paths_fit os" "4095 \<le> fuel"
  shows "\<exists>w' n. whitelist_scan_directory fuel sha api os recursive dir w = Some (w', n)"
  using assms by (rule scan_ends) blast

lemma scan_terminates_witness:
  "\<exists>w' n. whitelist_scan_directory 4095 pad_api ref_sqlite demo_tree 1 ''/bin'' demo_whitelist = Some (w', n)"
  by (rule scan_terminates [OF demo_tree_fits(1)]) simp

text \<open>
  C17: a scan lists nothing but the digests of regular, executable ELF files that lie under the
  scanned directory, with their path and marked as system files; every other row stays.
\<close>

theorem scan_lists_only_executables:
  assumes "sha256_spec sha fed H" "sqlite_spec api tbl" "opens_at_start os"
    and "whitelist_scan_directory fuel sha api os recursive dir w = Some (w', n)"
  shows "wl_table tbl w' h = wl_table tbl w h \<or>
    (\<exists>p. under os recursive dir p \<and> lists_file H os p h (wl_table tbl w' h))"
  using assms by (rule scan_lists)

lemma scan_lists_only_executables_witness:
  "\<exists>w' n. whitelist_scan_directory 4095 pad_api ref_sqlite demo_tree 1 ''/bin'' demo_whitelist = Some (w', n) \<and>
    (wl_table map_of w' demo_hash = None \<or>
     (\<exists>p. under demo_tree 1 ''/bin'' p \<and> lists_file pad_digest demo_tree p demo_hash (wl_table map_of w' demo_hash)))"
proof -
  obtain w' n where s: "whitelist_scan_directory 4095 pad_api ref_sqlite demo_tree 1 ''/bin'' demo_whitelist = Some (w', n)"
    by (rule scan_ends [OF demo_tree_fits(1) order_refl])
  then show ?thesis
    using scan_lists_only_executables [OF pad_api_spec ref_sqlite_spec demo_tree_fits(2) s, of demo_hash]
    by (auto simp: demo_whitelist_table)
qed

text \<open>
  C16: a scan misses none: every executable ELF file the walk comes to and can hash is listed
  afterwards, where the database works.
\<close>

theorem scan_misses_none:
  assumes "sqlite_spec api tbl" "sqlite_never_fails api" "whitelist_ready w"
    and "os_lstat os p = Some m" "is_executable_file os p m" "hash_file sha (os_open os) p = Some h"
    and "under os recursive dir p"
    and "whitelist_scan_directory fuel sha api os recursive dir w = Some (w', n)"
  shows "h \<in> dom (wl_table tbl w')"
  using scan_finds [OF assms(1,2,4-7,3,8)] .

lemma scan_misses_none_witness:
  "\<exists>w' n. whitelist_scan_directory 4095 pad_api ref_sqlite demo_tree 1 ''/bin'' demo_whitelist = Some (w', n) \<and>
    demo_hash \<in> dom (wl_table map_of w')"
proof -
  obtain w' n where s: "whitelist_scan_directory 4095 pad_api ref_sqlite demo_tree 1 ''/bin'' demo_whitelist = Some (w', n)"
    by (rule scan_ends [OF demo_tree_fits(1) order_refl])
  have "os_lstat demo_tree ''/bin/ls'' = Some 0x81ED" by (simp add: demo_tree_def)
  from scan_misses_none [OF ref_sqlite_spec ref_sqlite_never_fails demo_whitelist_table(2) this
      demo_tree_elf demo_tree_entry s]
  show ?thesis using s by blast
qed



section \<open>Configuration\<close>

text \<open>
  C29: a path is excluded from monitoring exactly when one of the non-empty, trimmed fields of
  the list is a prefix of it, byte by byte.
\<close>

theorem excluded_exactly:
  "is_path_excluded g path \<longleftrightarrow> list_ex (\<lambda>t. prefix t path) (exclusion_prefixes g)"
  by (simp add: is_path_excluded_iff list_ex_iff)

text \<open>C38: a field of nothing but spaces excludes every path, so that nothing is checked any more.\<close>

theorem blank_field_excludes_all:
  assumes "f \<in> set (comma_fields (take 4095 (exclude_paths g)))" "f \<noteq> []" "set f \<subseteq> {CHR '' ''}"
  shows "is_path_excluded g path"
proof -
  have "\<forall>x \<in> set f. x = CHR '' ''" using assms(3) by auto
  then have "dropWhile (\<lambda>c. c = CHR '' '') f = []" by (simp only: dropWhile_eq_Nil_conv)
  then have "strip_spaces f = []" by (simp only: strip_spaces_def dropWhile.simps rev.simps)
  then have "[] \<in> set (exclusion_prefixes g)" using assms(1,2) by (force simp: exclusion_prefixes_def)
  then show ?thesis unfolding is_path_excluded_iff by (intro bexI [of _ "[]"]) simp_all
qed

lemma blank_field_excludes_all_witness:
  "is_path_excluded (default_config\<lparr>exclude_paths := ''/proc, ,/sys''\<rparr>) ''/tmp/malware''"
  by (rule blank_field_excludes_all [of "'' ''"]) simp_all

text \<open>
  C30: the command line wins over the file, which for its part can neither ask for a scan nor
  keep the daemon in the foreground.
\<close>

theorem command_line_wins:
  assumes "load_config read_file opts g = Ret (Args_ok g')"
  shows "do_scan g' = (if Opt_scan \<in> set opts then 1 else do_scan g) \<and>
    foreground g' = (if Opt_foreground \<in> set opts then 1 else foreground g) \<and>
    (Opt_learn \<in> set opts \<longrightarrow> learning_mode g' = 1) \<and>
    (db_args opts \<noteq> [] \<longrightarrow> db_path g' = take 4095 (last (db_args opts))) \<and>
    (timeout_args opts \<noteq> [] \<longrightarrow> gui_timeout_ms g' = atoi (last (timeout_args opts)) * 1000)"
proof -
  obtain g1 g2 rc where g1: "parse_args opts g = Ret (Args_ok g1)"
    and g2: "parse_config_file (read_file (config_path g1)) g1 = Ret (g2, rc)"
    and g': "parse_args opts g2 = Ret (Args_ok g')"
    using assms by (rule load_config_cases)
  show ?thesis
    using parse_args_sets [OF g1] parse_args_sets [OF g'] parse_config_file_frame [OF g2]
    by (auto simp: same_switches_def copy_field_def)
qed

lemma command_line_wins_witness:
  "\<exists>g'. load_config (\<lambda>p. Opened ''learning_mode = 0'') [Opt_learn, Opt_timeout ''5''] default_config =
      Ret (Args_ok g') \<and> learning_mode g' = 1 \<and> gui_timeout_ms g' = 5000"
proof -
  have n: "atoi ''5'' = 5" and "fgets_line ''learning_mode = 0'' = ''learning_mode = 0''"
    and "scan_setting ''learning_mode = 0'' = Some (''learning_mode'', ''0'')"
    by code_simp+
  then have "\<exists>h. parse_lines ''learning_mode = 0'' g = Ret h" for g
    by (simp add: parse_lines.simps [of "''learning_mode = 0''"] parse_lines.simps [of "[]"]
        parse_config_line_def is_blank_def newline_def apply_setting_def Let_def)
  then have "\<exists>g'. load_config (\<lambda>p. Opened ''learning_mode = 0'') [Opt_learn, Opt_timeout ''5''] default_config =
      Ret (Args_ok g')"
    using n by (auto simp: load_config_def set_timeout_def c_mul_def c_int_ok_def parse_config_file_def
        bind_outcome_Ret_iff)
  then obtain g' where "load_config (\<lambda>p. Opened ''learning_mode = 0'') [Opt_learn, Opt_timeout ''5'']
      default_config = Ret (Args_ok g')" by blast
  then show ?thesis using command_line_wins [of _ "[Opt_learn, Opt_timeout ''5'']"] n by fastforce
qed


section \<open>IPC server\<close>




text \<open>
  With all 64 slots taken a request is answered at once with the timeout code and nothing is
  sent.
\<close>

theorem full_table_times_out:
  assumes "ipc_has_client sv" "MAX_PENDING_REQUESTS \<le> sv_pending_count sv"
  shows "\<exists>sv'. ipc_request_permission env request timeout_ms sv = Ret (sv', LEXEC_RESPONSE_TIMEOUT) \<and>
    sv_sent sv' = sv_sent sv \<and> sv_pending_count sv' = sv_pending_count sv"
  using request_full [of sv env request timeout_ms] assms by (simp add: ipc_has_client_def)

lemma full_table_times_out_witness:
  "\<exists>sv'. ipc_request_permission quiet_gui demo_request 0 (demo_client\<lparr>sv_pending_count := 64\<rparr>) =
     Ret (sv', LEXEC_RESPONSE_TIMEOUT)"
  using full_table_times_out [of "demo_client\<lparr>sv_pending_count := 64\<rparr>" quiet_gui demo_request 0]
  by (auto simp: MAX_PENDING_REQUESTS_def demo_client_def accept_client_def ipc_initial_def
      ipc_has_client_def Let_def)

text \<open>The deadline of a wait is the present plus the timeout, with normalised nanoseconds.\<close>

theorem deadline_is_normalised:
  assumes "0 \<le> nsec" "nsec < 1000000000" "0 \<le> timeout_ms"
    and "wait_deadline sec nsec timeout_ms = (s, n)"
  shows "0 \<le> n \<and> n < 1000000000 \<and>
    s * 1000000000 + n = sec * 1000000000 + nsec + timeout_ms * 1000000"
  using assms by (rule wait_deadline_normal)

lemma deadline_is_normalised_witness:
  "wait_deadline 10 900000000 30250 = (41, 150000000) \<and>
   (41 :: int) * 1000000000 + 150000000 = 10 * 1000000000 + 900000000 + 30250 * 1000000"
proof -
  have w: "wait_deadline 10 900000000 30250 = (41, 150000000)" by (simp add: wait_deadline_def Let_def)
  show ?thesis using deadline_is_normalised [OF _ _ _ w] w by simp
qed

text \<open>
  When a second client replaces the first one, the first one's descriptor is closed twice:
  once by the accept thread, once by its own reader thread when that sees the end of the stream.
\<close>

theorem replaced_client_closed_twice:
  assumes "0 \<le> a" "a \<noteq> b"
  shows "count_list (sv_closed (reader_disconnect a (accept_client b (accept_client a ipc_initial)))) a = 2 \<and>
    sv_client_fd (reader_disconnect a (accept_client b (accept_client a ipc_initial))) = b"
  using assms by (auto simp: reader_disconnect_def accept_client_def ipc_initial_def Let_def)

lemma replaced_client_closed_twice_witness:
  "count_list (sv_closed (reader_disconnect 5 (accept_client 6 (accept_client 5 ipc_initial)))) 5 = 2"
  using replaced_client_closed_twice [of 5 6] by simp

section \<open>File tests of the handler\<close>

text \<open>
  A path counts as a shared library exactly when it ends in \<open>.so\<close> or has \<open>.so.\<close> in it
  somewhere, in a directory's name too.
\<close>

theorem shared_library_names:
  "is_shared_library path \<longleftrightarrow> suffix ''.so'' path \<or> sublist ''.so.'' path"
  by (rule is_shared_library_iff)

text \<open>
  On a regular file the ELF test is exact and leaves the position where it was, so that the
  program that opened the file does not notice it.
\<close>

theorem elf_test_is_exact:
  assumes "fd_seekable f" "fd_reads f = []"
  shows "snd (is_elf_file f) = prefix elf_magic (fd_content f) \<and> fd_pos (fst (is_elf_file f)) = fd_pos f"
  using is_elf_file_exact [OF assms] is_elf_file_frame [OF prod.collapse [symmetric], of f]
    assms(1) by simp

lemma elf_test_is_exact_witness:
  "\<not> snd (is_elf_file \<lparr>fd_content = [0x23, 0x21, 0x2f, 0x62, 0x69], fd_pos = 3, fd_seekable = True, fd_reads = []\<rparr>)"
  using elf_test_is_exact [of "\<lparr>fd_content = [0x23, 0x21, 0x2f, 0x62, 0x69], fd_pos = 3,
      fd_seekable = True, fd_reads = []\<rparr>"]
  by (simp add: elf_magic_def)

section \<open>Client\<close>

text \<open>
  C33: the client has exactly the one socket and watch it believes to have throughout every run
  in which the user asks for a connection only while none is being retried.
\<close>

theorem client_keeps_single_connection:
  assumes "single_connection g" "calm es g"
  shows "single_connection (gui_run es g)"
  using assms(2,1) by (rule calm_single)

definition try_ok :: "int \<Rightarrow> nat \<Rightarrow> attempt" where
  "try_ok s w = \<lparr>at_socket = s, at_connect = True, at_watch = w\<rparr>"

definition try_refused :: attempt where
  "try_refused = \<lparr>at_socket = 3, at_connect = False, at_watch = 1\<rparr>"

lemmas gui_runs = gui_run_def gui_defs gui_initial_def try_ok_def try_refused_def
  update_status_display_def

lemma client_keeps_single_connection_witness:
  "single_connection (gui_run [Gev_activate try_refused, Gev_timer (try_ok 5 1),
     Gev_socket 1 True False Rq_failed, Gev_timer (try_ok 5 2)] gui_initial)"
proof (rule client_keeps_single_connection [OF gui_initial_single])
  show "calm [Gev_activate try_refused, Gev_timer (try_ok 5 1),
     Gev_socket 1 True False Rq_failed, Gev_timer (try_ok 5 2)] gui_initial"
    by (simp add: attempt_ok_def) (simp add: gui_runs Let_def)
qed


text \<open>
  After the connection is lost and the timer has restored it the window still says
  "Disconnected".
\<close>

theorem retried_connection_shown_as_lost:
  "gu_connected (gui_run [Gev_activate try_refused, Gev_timer (try_ok 5 1)] gui_initial) \<and>
   gu_status_label (gui_run [Gev_activate try_refused, Gev_timer (try_ok 5 1)] gui_initial) =
     Some (status_text False)"
  by (simp add: gui_runs Let_def)

text \<open>A window closed once never becomes visible again, whatever is done with the client.\<close>

theorem closed_window_stays_hidden:
  "\<not> gu_visible (gui_run es (on_window_close_request g))"
proof -
  have "gu_minimized (gui_run es h) \<and> \<not> gu_visible (gui_run es h)" if "gu_minimized h \<and> \<not> gu_visible h" for h
    using gui_run_keeps [where P = "\<lambda>g. gu_minimized g \<and> \<not> gu_visible g" and ok = "\<lambda>e. True" and es = es]
      gui_step_hidden that by blast
  then show ?thesis by (simp add: on_window_close_request_def)
qed

text \<open>
  The label with the path is complete exactly up to 4073 bytes of path; the daemon sends up to
  4095, and beyond the markup loses its closing tag.
\<close>

theorem path_label_complete_iff:
  "suffix ''</tt>'' (path_markup path) \<and> length (path_markup path) = length path + 22 \<longleftrightarrow> length path \<le> 4073"
proof
  assume "length path \<le> 4073"
  then have "path_markup path = ''<b>Path:</b>'' @ line_break @ ''<tt>'' @ path @ ''</tt>''"
    by (simp add: path_markup_def line_break_def)
  then show "suffix ''</tt>'' (path_markup path) \<and> length (path_markup path) = length path + 22"
    by (simp add: line_break_def suffix_def)
qed (simp add: path_markup_def line_break_def min_def split: if_splits)

text \<open>
  A click in a dialog sends one answer, for the request the dialog was made for, to the
  current connection, counts it, and closes that dialog alone.
\<close>

theorem click_answers_its_request:
  assumes "gu_connected g" "i < length (gu_dialogs g)" "g' = gui_step (Gev_dialog True i b) g"
  shows "\<exists>code. gu_sent g' = gu_sent g @
      [(gu_socket g, \<lparr>rs_request_id = dl_request (gu_dialogs g ! i), rs_response = code\<rparr>)] \<and>
    code = (if b = 1 then MSG_ALLOW_ONCE else if b = 2 then MSG_ALLOW_ALWAYS else MSG_DENY) \<and>
    gu_dialogs g' = take i (gu_dialogs g) @ drop (Suc i) (gu_dialogs g) \<and>
    gu_allowed g' + gu_denied g' = gu_allowed g + gu_denied g + 1"
  using assms by (simp add: on_dialog_response_def send_response_def Let_def)

lemma click_answers_its_request_witness:
  "\<exists>g'. g' = gui_run [Gev_activate (try_ok 5 1), Gev_socket 1 False True (Rq_whole
       \<lparr>rq_request_id = 8, rq_pid = 1, rq_uid = 0, rq_path = ''/x'', rq_hash = [], rq_cmdline = [],
        rq_parent_path = [], rq_is_shared_lib = 0\<rparr>), Gev_dialog True 0 2] gui_initial \<and>
     map (rs_request_id \<circ> snd) (gu_sent g') = [8] \<and> gu_dialogs g' = []"
proof -
  let ?es = "[Gev_activate (try_ok 5 1), Gev_socket 1 False True (Rq_whole
       \<lparr>rq_request_id = 8, rq_pid = 1, rq_uid = 0, rq_path = ''/x'', rq_hash = [], rq_cmdline = [],
        rq_parent_path = [], rq_is_shared_lib = 0\<rparr>)]"
  define g where "g = gui_run ?es gui_initial"
  have f: "gu_connected g" "map dl_request (gu_dialogs g) = [8]" "gu_sent g = []"
    by (simp_all add: g_def gui_runs Let_def)
  then obtain dl where dl: "gu_dialogs g = [dl]" "dl_request dl = 8" by auto
  have run: "gui_run (?es @ [Gev_dialog True 0 2]) gui_initial = gui_step (Gev_dialog True 0 2) g"
    by (simp add: g_def gui_run_def del: gui_step.simps)
  have "0 < length (gu_dialogs g)" using dl by simp
  from click_answers_its_request [OF f(1) this refl, of 2] f(3) dl
  have "map (rs_request_id \<circ> snd) (gu_sent (gui_step (Gev_dialog True 0 2) g)) = [8]"
    and "gu_dialogs (gui_step (Gev_dialog True 0 2) g) = []"
    by (auto simp del: gui_step.simps)
  then show ?thesis unfolding run [symmetric] by simp
qed

text \<open>
  C34: the buttons of a dialog do what they say: in the dialog of a request, "Allow Once", "Allow
  Always" and "Deny" send those three codes for that request, Enter presses "Deny", and closing the
  dialog in any other way denies. No widget of the dialog lies on another.
\<close>

theorem dialog_buttons_say_what_they_send:
  assumes "gu_connected g" "h = show_permission_dialog rq g" "i = length (gu_dialogs g)"
  shows "map (\<lambda>(label, b). (label, gu_sent (gui_step (Gev_dialog True i b) h))) (dl_buttons (gu_dialogs h ! i)) =
      map (\<lambda>(label, code). (label, gu_sent g @ [(gu_socket g, \<lparr>rs_request_id = rq_request_id rq, rs_response = code\<rparr>)]))
        [(''Allow Once'', MSG_ALLOW_ONCE), (''Allow Always'', MSG_ALLOW_ALWAYS), (''Deny'', MSG_DENY)] \<and>
    map_of (map (\<lambda>(label, b). (b, label)) (dl_buttons (gu_dialogs h ! i))) (dl_default (gu_dialogs h ! i)) = Some ''Deny'' \<and>
    (b \<notin> snd ` set (dl_buttons (gu_dialogs h ! i)) \<longrightarrow>
      gu_sent (gui_step (Gev_dialog True i b) h) =
        gu_sent g @ [(gu_socket g, \<lparr>rs_request_id = rq_request_id rq, rs_response = MSG_DENY\<rparr>)]) \<and>
    laid_out (dl_content (gu_dialogs h ! i))"
proof -
  obtain dl where h: "h = g\<lparr>gu_dialogs := gu_dialogs g @ [dl]\<rparr>"
    and dl: "dl_request dl = rq_request_id rq" "dl_default dl = 3"
      "dl_buttons dl = [(''Allow Once'', 1), (''Allow Always'', 2), (''Deny'', 3)]"
    unfolding assms(2) by (rule dialog_shown)
  have sent: "gu_sent (gui_step (Gev_dialog True i b) h) = gu_sent g @ [(gu_socket g,
      \<lparr>rs_request_id = rq_request_id rq,
       rs_response = (if b = 1 then MSG_ALLOW_ONCE else if b = 2 then MSG_ALLOW_ALWAYS else MSG_DENY)\<rparr>)]" for b
    using assms(1,3) h dl(1) by (simp add: on_dialog_response_def send_response_def Let_def)
  have "gu_dialogs h ! i = dl" using h assms(3) by simp
  moreover have "laid_out (dl_content dl)" using dialog_laid_out [of rq g dl] h assms(2) by simp
  ultimately show ?thesis by (simp add: sent dl(2,3) del: gui_step.simps)
qed

lemma dialog_buttons_say_what_they_send_witness:
  "map (\<lambda>(label, b). map (rs_response \<circ> snd) (gu_sent (gui_step (Gev_dialog True 0 b)
       (show_permission_dialog demo_request (gui_initial\<lparr>gu_connected := True, gu_socket := 5\<rparr>)))))
     [(''Allow Once'', 1), (''Allow Always'', 2), (''Deny'', 3)] = [[MSG_ALLOW_ONCE], [MSG_ALLOW_ALWAYS], [MSG_DENY]]"
proof -
  let ?g = "gui_initial\<lparr>gu_connected := True, gu_socket := 5\<rparr>"
  let ?h = "show_permission_dialog demo_request ?g"
  have e: "gu_dialogs ?g = []" "gu_sent ?g = []" by (simp_all add: gui_initial_def)
  obtain dl where h: "?h = ?g\<lparr>gu_dialogs := gu_dialogs ?g @ [dl]\<rparr>"
    and dl: "dl_buttons dl = [(''Allow Once'', 1), (''Allow Always'', 2), (''Deny'', 3)]"
    by (rule dialog_shown)
  have d: "gu_dialogs ?h ! 0 = dl" using h e by simp
  show ?thesis
    using dialog_buttons_say_what_they_send [OF _ refl, of ?g 0 demo_request] unfolding d dl
    by (simp add: e del: gui_step.simps)
qed

text \<open>
  The client's \<open>main\<close> returns what GTK's main loop returned, with the connection closed and no
  socket or watch left, after every run in which the user asked for a connection only while none
  was being retried.
\<close>

theorem client_exit_disconnects:
  assumes "attempt_ok a" "calm es (gui_step (Gev_activate a) gui_initial)"
  shows "snd (gui_main a es status) = status \<and> \<not> gu_connected (fst (gui_main a es status)) \<and>
    gu_open (fst (gui_main a es status)) = [] \<and> gu_watches (fst (gui_main a es status)) = []"
  using disconnect_single [OF gui_main_ends [OF assms(2,1)]] by (simp add: gui_main_def on_shutdown_def)

lemma client_exit_disconnects_witness:
  "gu_open (fst (gui_main try_refused [Gev_timer (try_ok 5 1), Gev_close] 0)) = []"
proof -
  have "calm [Gev_timer (try_ok 5 1), Gev_close] (gui_step (Gev_activate try_refused) gui_initial)"
    by (simp add: attempt_ok_def try_ok_def)
  then show ?thesis
    using client_exit_disconnects [of try_refused "[Gev_timer (try_ok 5 1), Gev_close]" 0]
    by (simp add: attempt_ok_def try_refused_def del: gui_step.simps)
qed

end
