(* ===== verification/Ipc_Threads.thy ===== *)
theory Ipc_Threads
  imports Ipc
begin

text \<open>
  \<open>src/src/daemon/ipc_server.c\<close> with any number of requesters at once: a thread inside
  \<open>ipc_request_permission\<close> is a value of \<open>requester\<close>, named after the statement it is about
  to run, and the threads, the accept thread and the reader threads take turns over the one
  server (\<open>ipc_move\<close>). A step is a region the source runs under a lock, or a call outside one.

  The table itself is right under every interleaving (\<open>table_inv\<close>): it holds exactly the
  requests between allocation and removal. The pointers into it are not: \<open>memmove\<close> moves the
  slots above a removed one, under the requesters that wait on them. They stay right where
  removals come in the opposite order of allocations (\<open>nested\<close>), as with the one requester
  the daemon has.
\<close>

section \<open>A requester, statement by statement\<close>

text \<open>
  The data of a state are the local variables it still needs: the request or its copy, the
  timeout, \<open>client_fd\<close>, the id, the index of the slot \<open>pending\<close> points to, the result.
\<close>

datatype requester =
  At_start exec_request int
| At_take exec_request int int
| At_allocate exec_request int int
| At_write exec_request int int nat
| At_wait u32 int nat
| At_cleanup u32 int
| At_end "u32 option" int

inductive requester_step :: "requester \<Rightarrow> ipc_server \<Rightarrow> requester \<Rightarrow> ipc_server \<Rightarrow> bool" where
  no_client: "sv_client_fd sv < 0 \<Longrightarrow>
     requester_step (At_start req t) sv (At_end None LEXEC_RESPONSE_NO_CLIENT) sv"
| client: "0 \<le> sv_client_fd sv \<Longrightarrow>
     requester_step (At_start req t) sv (At_take req t (sv_client_fd sv)) sv"
| take_id: "take_request_id sv = (rid, sv') \<Longrightarrow>
     requester_step (At_take req t fd) sv (At_allocate (req\<lparr>rq_request_id := rid\<rparr>) t fd) sv'"
| full: "allocate_pending (rq_request_id req) sv = None \<Longrightarrow>
     requester_step (At_allocate req t fd) sv
       (At_end (Some (rq_request_id req)) LEXEC_RESPONSE_TIMEOUT) sv"
| allocate: "allocate_pending (rq_request_id req) sv = Some (slot, sv') \<Longrightarrow>
     requester_step (At_allocate req t fd) sv (At_write req t fd slot) sv'"
| written: "requester_step (At_write req t fd slot) sv (At_wait (rq_request_id req) t slot)
     (sv\<lparr>sv_sent := sv_sent sv @ [(fd, req)]\<rparr>)"
| write_failed: "requester_step (At_write req t fd slot) sv
     (At_cleanup (rq_request_id req) LEXEC_RESPONSE_NO_CLIENT) sv"
| answered: "pd_completed (sv_pending sv ! slot) \<Longrightarrow>
     requester_step (At_wait rid t slot) sv (At_cleanup rid (pd_response (sv_pending sv ! slot))) sv"
| timed_out: "\<not> pd_completed (sv_pending sv ! slot) \<Longrightarrow> 0 < t \<Longrightarrow>
     requester_step (At_wait rid t slot) sv (At_cleanup rid LEXEC_RESPONSE_TIMEOUT) sv"
| clean: "requester_step (At_cleanup rid r) sv (At_end (Some rid) r) (remove_pending rid sv)"

inductive_cases startE: "requester_step (At_start req t) sv q sv'"
inductive_cases takeE: "requester_step (At_take req t fd) sv q sv'"
inductive_cases allocateE: "requester_step (At_allocate req t fd) sv q sv'"
inductive_cases writeE: "requester_step (At_write req t fd slot) sv q sv'"
inductive_cases waitE: "requester_step (At_wait rid t slot) sv q sv'"
inductive_cases cleanupE: "requester_step (At_cleanup rid r) sv q sv'"
inductive_simps end_step [simp]: "requester_step (At_end rid r) sv q sv'"
inductive_simps wait_step: "requester_step (At_wait rid t slot) sv q sv'"

section \<open>All threads together\<close>

text \<open>\<open>cc_answers\<close> records the responses read from the sockets, in order.\<close>

record concurrent =
  cc_server :: ipc_server
  cc_threads :: "requester list"
  cc_answers :: "(u32 \<times> int) list"

datatype action = Env ipc_event | Move nat

fun answer_of :: "ipc_event \<Rightarrow> (u32 \<times> int) list" where
  "answer_of (Ev_response fd r) = [(rs_request_id r, rs_response r)]"
| "answer_of _ = []"

inductive ipc_move :: "concurrent \<Rightarrow> action \<Rightarrow> concurrent \<Rightarrow> bool" where
  env: "ipc_move s (Env e)
     (s\<lparr>cc_server := ipc_env_step e (cc_server s), cc_answers := cc_answers s @ answer_of e\<rparr>)"
| requester: "i < length (cc_threads s) \<Longrightarrow> requester_step (cc_threads s ! i) (cc_server s) q sv \<Longrightarrow>
     ipc_move s (Move i) (s\<lparr>cc_server := sv, cc_threads := (cc_threads s)[i := q]\<rparr>)"

inductive_cases envE: "ipc_move s (Env e) s'"
inductive_cases moveE: "ipc_move s (Move i) s'"

text \<open>A system starts with requesters that have not begun; \<open>P\<close> restricts the moves of a run.\<close>

definition at_start :: "requester \<Rightarrow> bool" where
  "at_start q \<longleftrightarrow> (\<exists>req t. q = At_start req t)"

definition cc_initial :: "requester list \<Rightarrow> concurrent" where
  "cc_initial qs = \<lparr>cc_server = ipc_initial, cc_threads = qs, cc_answers = []\<rparr>"

inductive reaches :: "(concurrent \<Rightarrow> action \<Rightarrow> bool) \<Rightarrow> concurrent \<Rightarrow> concurrent \<Rightarrow> bool"
  for P s0 where
  here: "reaches P s0 s0"
| further: "reaches P s0 s \<Longrightarrow> P s a \<Longrightarrow> ipc_move s a s' \<Longrightarrow> reaches P s0 s'"

definition anyhow :: "concurrent \<Rightarrow> action \<Rightarrow> bool" where
  "anyhow s a \<longleftrightarrow> True"

text \<open>The ids in use, in the order of the slots.\<close>

definition pending_ids :: "ipc_server \<Rightarrow> u32 list" where
  "pending_ids sv = map pd_request_id (take (sv_pending_count sv) (sv_pending sv))"

text \<open>Only the request allocated last is removed.\<close>

definition nested :: "concurrent \<Rightarrow> action \<Rightarrow> bool" where
  "nested s a \<longleftrightarrow> (\<forall>i rid r. a = Move i \<longrightarrow> cc_threads s ! i = At_cleanup rid r \<longrightarrow>
     last (pending_ids (cc_server s)) = rid)"

lemma reaches_trans: "reaches P s t \<Longrightarrow> reaches P r s \<Longrightarrow> reaches P r t"
  by (induction rule: reaches.induct) (auto intro: reaches.intros)

lemma reaches_mono:
  "reaches P s t \<Longrightarrow> (\<And>u a. reaches P s u \<Longrightarrow> P u a \<Longrightarrow> Q u a) \<Longrightarrow> reaches Q s t"
  by (induction rule: reaches.induct) (auto intro: reaches.intros)

lemma reaches_anyhow: "reaches P s t \<Longrightarrow> reaches anyhow s t"
  by (erule reaches_mono) (simp add: anyhow_def)

lemma reaches_one: "ipc_move s a s' \<Longrightarrow> P s a \<Longrightarrow> reaches P s s'"
  by (blast intro: reaches.intros)

section \<open>The table under single operations\<close>

definition pending_wf :: "ipc_server \<Rightarrow> bool" where
  "pending_wf sv \<longleftrightarrow> sv_pending_count sv \<le> MAX_PENDING_REQUESTS \<and>
     length (sv_pending sv) = MAX_PENDING_REQUESTS"

definition entries :: "ipc_server \<Rightarrow> pending_request list" where
  "entries sv = take (sv_pending_count sv) (sv_pending sv)"

lemma pending_ids_entries: "pending_ids sv = map pd_request_id (entries sv)"
  by (simp add: pending_ids_def entries_def)

lemma length_entries [simp]: "pending_wf sv \<Longrightarrow> length (entries sv) = sv_pending_count sv"
  by (simp add: entries_def pending_wf_def)

lemma nth_entries [simp]: "k < sv_pending_count sv \<Longrightarrow> entries sv ! k = sv_pending sv ! k"
  by (simp add: entries_def)

lemma find_pending_NoneD: "pending_wf sv \<Longrightarrow> find_pending sv rid = None \<Longrightarrow> rid \<notin> set (pending_ids sv)"
  by (auto simp: find_pending_def find_None_iff pending_ids_entries in_set_conv_nth) blast

lemma find_pending_SomeD:
  assumes "pending_wf sv" "find_pending sv rid = Some i"
  shows "i < sv_pending_count sv" "pd_request_id (sv_pending sv ! i) = rid"
    "rid \<notin> set (map pd_request_id (take i (entries sv)))"
proof -
  from assms(2) have "i < sv_pending_count sv \<and> pd_request_id (sv_pending sv ! i) = rid \<and>
      (\<forall>j<i. pd_request_id (sv_pending sv ! j) \<noteq> rid)"
    by (auto simp: find_pending_def find_Some_iff)
  then show "i < sv_pending_count sv" "pd_request_id (sv_pending sv ! i) = rid"
    "rid \<notin> set (map pd_request_id (take i (entries sv)))"
    using assms(1) by (auto simp: in_set_conv_nth) blast
qed

lemma find_pending_found:
  assumes "pending_wf sv" "distinct (pending_ids sv)" "k < sv_pending_count sv"
    and "pd_request_id (sv_pending sv ! k) = rid"
  shows "find_pending sv rid = Some k"
proof (cases "find_pending sv rid")
  case None
  then show ?thesis using find_pending_NoneD [OF assms(1)] assms
    by (force simp: pending_ids_entries in_set_conv_nth)
next
  case (Some i)
  note i = find_pending_SomeD [OF assms(1) Some]
  have "i = k"
    using assms i(1,2) nth_eq_iff_index_eq [of "pending_ids sv" i k]
    by (simp add: pending_ids_entries)
  with Some show ?thesis by simp
qed

text \<open>The threads of the server change what a slot holds, never its id or its place.\<close>

lemma entries_env_step:
  assumes "pending_wf sv"
  shows "entries (ipc_env_step e sv) = (case e of
      Ev_response fd r \<Rightarrow> (case find_pending sv (rs_request_id r) of
          None \<Rightarrow> entries sv
        | Some i \<Rightarrow> (entries sv)[i := (entries sv ! i)\<lparr>pd_response := rs_response r, pd_completed := True\<rparr>])
    | _ \<Rightarrow> entries sv)"
proof (cases e)
  case (Ev_response fd r)
  show ?thesis
  proof (cases "find_pending sv (rs_request_id r)")
    case (Some i)
    then have "i < sv_pending_count sv" using find_pending_SomeD [OF assms] by blast
    then show ?thesis using Ev_response Some
      by (simp add: reader_response_def) (simp add: entries_def take_update_swap)
  qed (use Ev_response in \<open>simp add: reader_response_def\<close>)
qed (simp_all add: accept_client_def reader_disconnect_def Let_def entries_def)

lemma pending_env_step:
  assumes "pending_wf sv"
  shows "pending_wf (ipc_env_step e sv)" "pending_ids (ipc_env_step e sv) = pending_ids sv"
proof -
  show "pending_wf (ipc_env_step e sv)" using assms by (simp add: pending_wf_def)
  have "(map pd_request_id (entries sv))[i := pd_request_id (entries sv ! i)] = map pd_request_id (entries sv)" for i
    by (cases "i < length (entries sv)") (simp_all add: list_update_same_conv list_update_beyond)
  then show "pending_ids (ipc_env_step e sv) = pending_ids sv"
    by (simp add: pending_ids_entries entries_env_step [OF assms] map_update split: ipc_event.split option.split)
qed

lemma allocate_entries:
  assumes "pending_wf sv" "allocate_pending rid sv = Some (slot, sv')"
  shows "pending_wf sv'" "slot = sv_pending_count sv" "sv_pending_count sv' = Suc slot"
    "entries sv' = entries sv @ [\<lparr>pd_request_id = rid, pd_response = LEXEC_RESPONSE_TIMEOUT, pd_completed = False\<rparr>]"
    "sv_next_request_id sv' = sv_next_request_id sv"
  using assms
  by (auto simp: allocate_pending_def pending_wf_def entries_def take_Suc_conv_app_nth split: if_splits)

lemma shift_down_split:
  assumes "i < n" "n \<le> length xs"
  shows "shift_down i n xs = (take i xs @ drop (Suc i) (take n xs)) @ drop (n - 1) xs"
    "length (take i xs @ drop (Suc i) (take n xs)) = n - 1"
  using assms by (simp_all add: shift_down_def drop_take)

lemma length_shift_down: "i < n \<Longrightarrow> n \<le> length xs \<Longrightarrow> length (shift_down i n xs) = length xs"
  using shift_down_split [of i n xs] by simp

lemma take_shift_down:
  "i < n \<Longrightarrow> n \<le> length xs \<Longrightarrow> take (n - 1) (shift_down i n xs) = take i xs @ drop (Suc i) (take n xs)"
  using shift_down_split [of i n xs] by (simp del: length_append)

lemma remove_entries:
  assumes "pending_wf sv"
  shows "entries (remove_pending rid sv) = (case find_pending sv rid of
      None \<Rightarrow> entries sv | Some i \<Rightarrow> take i (entries sv) @ drop (Suc i) (entries sv))"
proof (cases "find_pending sv rid")
  case (Some i)
  note i = find_pending_SomeD(1) [OF assms Some]
  then have "entries (remove_pending rid sv) =
      take i (sv_pending sv) @ drop (Suc i) (take (sv_pending_count sv) (sv_pending sv))"
    using Some assms take_shift_down [OF i, of "sv_pending sv"]
    by (simp add: remove_pending_def entries_def pending_wf_def)
  then show ?thesis using Some i by (simp add: entries_def min_def)
qed (simp add: remove_pending_def)

lemma pending_remove:
  assumes "pending_wf sv"
  shows "pending_wf (remove_pending rid sv)"
    "pending_ids (remove_pending rid sv) = remove1 rid (pending_ids sv)"
    "set (entries (remove_pending rid sv)) \<subseteq> set (entries sv)"
proof -
  show "pending_wf (remove_pending rid sv)"
    using assms find_pending_SomeD(1) [OF assms]
    by (auto simp: remove_pending_def pending_wf_def length_shift_down split: option.split)
  show "pending_ids (remove_pending rid sv) = remove1 rid (pending_ids sv)"
  proof (cases "find_pending sv rid")
    case None
    then show ?thesis using find_pending_NoneD [OF assms None]
      by (simp add: remove_pending_def remove1_idem)
  next
    case (Some i)
    note i = find_pending_SomeD [OF assms Some]
    have "entries sv = take i (entries sv) @ entries sv ! i # drop (Suc i) (entries sv)"
      using i(1) assms by (intro id_take_nth_drop) simp
    then have "pending_ids sv = map pd_request_id (take i (entries sv)) @ rid #
        map pd_request_id (drop (Suc i) (entries sv))"
      using i(1,2) unfolding pending_ids_entries by (metis list.simps(9) map_append nth_entries)
    then show ?thesis using i(3) Some by (simp add: pending_ids_entries remove_entries [OF assms] remove1_append)
  qed
  show "set (entries (remove_pending rid sv)) \<subseteq> set (entries sv)"
    by (auto simp: remove_entries [OF assms] split: option.split dest: in_set_takeD in_set_dropD)
qed

section \<open>What a step does to the table\<close>

text \<open>The id a requester has drawn, the id it has in the table, and the slot it points to.\<close>

fun ticket :: "requester \<Rightarrow> u32 option" where
  "ticket (At_start req t) = None"
| "ticket (At_take req t fd) = None"
| "ticket (At_allocate req t fd) = Some (rq_request_id req)"
| "ticket (At_write req t fd slot) = Some (rq_request_id req)"
| "ticket (At_wait rid t slot) = Some rid"
| "ticket (At_cleanup rid r) = Some rid"
| "ticket (At_end rid r) = rid"

fun open_id :: "requester \<Rightarrow> u32 option" where
  "open_id (At_write req t fd slot) = Some (rq_request_id req)"
| "open_id (At_wait rid t slot) = Some rid"
| "open_id (At_cleanup rid r) = Some rid"
| "open_id _ = None"

fun slot_of :: "requester \<Rightarrow> (u32 \<times> nat) option" where
  "slot_of (At_write req t fd slot) = Some (rq_request_id req, slot)"
| "slot_of (At_wait rid t slot) = Some (rid, slot)"
| "slot_of _ = None"

lemma open_ticket: "open_id q = Some r \<Longrightarrow> ticket q = Some r"
  by (cases q) auto

lemma slot_open: "slot_of q = Some (r, k) \<Longrightarrow> open_id q = Some r"
  by (cases q) auto

text \<open>Four kinds of steps, as the table and the counter see them.\<close>

lemma requester_step_effect [consumes 1, case_names quiet take_id allocate clean]:
  assumes "requester_step q sv q' sv'"
  obtains
    (quiet) "ticket q' = ticket q" "open_id q' = open_id q" "slot_of q' = slot_of q \<or> slot_of q' = None"
      "entries sv' = entries sv" "pending_wf sv' = pending_wf sv"
      "sv_next_request_id sv' = sv_next_request_id sv"
  | (take_id) "ticket q = None" "ticket q' = Some (sv_next_request_id sv)" "open_id q = None"
      "open_id q' = None" "slot_of q' = None" "entries sv' = entries sv" "pending_wf sv' = pending_wf sv"
      "sv_next_request_id sv' = sv_next_request_id sv + 1"
  | (allocate) rid slot where "ticket q = Some rid" "ticket q' = Some rid" "open_id q = None"
      "open_id q' = Some rid" "slot_of q' = Some (rid, slot)" "allocate_pending rid sv = Some (slot, sv')"
  | (clean) rid r where "q = At_cleanup rid r" "q' = At_end (Some rid) r" "sv' = remove_pending rid sv"
  using assms
proof (cases rule: requester_step.cases)
  case (take_id rid req t fd)
  then show thesis by (intro that(2)) (auto simp: take_request_id_def entries_def pending_wf_def)
next
  case (allocate req slot t fd)
  then show thesis by (intro that(3)) auto
next
  case (clean rid r)
  then show thesis by (intro that(4)) auto
next
  case (full req t fd)
  then show thesis by (intro that(1)) auto
qed (rule that(1); auto simp: entries_def pending_wf_def)+

section \<open>The ids that were drawn\<close>

definition ticketed :: "requester list \<Rightarrow> nat set" where
  "ticketed qs = {i. i < length qs \<and> ticket (qs ! i) \<noteq> None}"

text \<open>
  The counter has moved once for every id that was drawn, and no id twice. The counter has 32
  bits, so this holds for less than \<open>2 ^ 32\<close> requests.
\<close>

definition tickets_inv :: "requester list \<Rightarrow> u32 \<Rightarrow> bool" where
  "tickets_inv qs n \<longleftrightarrow> n = of_nat (Suc (card (ticketed qs))) \<and>
     (\<forall>i < length qs. \<forall>r. ticket (qs ! i) = Some r \<longrightarrow>
        1 \<le> unat r \<and> unat r \<le> card (ticketed qs) \<and> (\<forall>j < length qs. ticket (qs ! j) = Some r \<longrightarrow> j = i))"

lemma tickets_inv_unique:
  "tickets_inv qs n \<Longrightarrow> i < length qs \<Longrightarrow> j < length qs \<Longrightarrow> ticket (qs ! i) = Some r \<Longrightarrow>
   ticket (qs ! j) = Some r \<Longrightarrow> i = j"
  by (auto simp: tickets_inv_def)

lemma card_ticketed: "card (ticketed qs) \<le> length qs"
  using card_mono [of "{0..<length qs}" "ticketed qs"] by (force simp: ticketed_def)

lemma tickets_same:
  assumes "i < length qs" "ticket q = ticket (qs ! i)"
  shows "tickets_inv (qs[i := q]) n = tickets_inv qs n"
proof -
  have t: "ticket (qs[i := q] ! j) = ticket (qs ! j)" for j
    using assms by (cases "j = i") simp_all
  then show ?thesis by (simp add: tickets_inv_def ticketed_def)
qed

lemma tickets_draw:
  assumes inv: "tickets_inv qs n" and i: "i < length qs" "ticket (qs ! i) = None" "ticket q = Some n"
    and few: "length qs < 2 ^ 32"
  shows "tickets_inv (qs[i := q]) (n + 1)"
proof -
  have t: "ticket (qs[i := q] ! j) = (if j = i then Some n else ticket (qs ! j))" for j
    using i by simp
  have "ticketed (qs[i := q]) = insert i (ticketed qs)" "i \<notin> ticketed qs"
    using i by (auto simp: ticketed_def t)
  moreover have "finite (ticketed qs)" by (simp add: ticketed_def)
  ultimately have card: "card (ticketed (qs[i := q])) = Suc (card (ticketed qs))" by simp
  have n: "n = of_nat (Suc (card (ticketed qs)))" using inv by (simp add: tickets_inv_def)
  have "Suc (card (ticketed qs)) < 2 ^ 32"
    using card card_ticketed [of "qs[i := q]"] few by simp
  then have un: "unat n = Suc (card (ticketed qs))"
    unfolding n by (simp add: unat_of_nat del: of_nat_Suc)
  have old: "1 \<le> unat r \<and> unat r \<le> card (ticketed qs) \<and> (\<forall>k < length qs. ticket (qs ! k) = Some r \<longrightarrow> k = j)"
    if "j < length qs" "ticket (qs ! j) = Some r" for j r
    using inv that by (auto simp: tickets_inv_def)
  then have new: "ticket (qs ! j) \<noteq> Some n" if "j < length qs" for j
    using that un by fastforce
  have "n + 1 = of_nat (Suc (Suc (card (ticketed qs))))" by (simp add: n)
  moreover have "1 \<le> unat r \<and> unat r \<le> Suc (card (ticketed qs)) \<and>
      (\<forall>k < length qs. (if k = i then Some n else ticket (qs ! k)) = Some r \<longrightarrow> k = j)"
    if j: "j < length qs" "(if j = i then Some n else ticket (qs ! j)) = Some r" for j r
  proof (cases "j = i")
    case True
    then show ?thesis using j(2) un new by auto
  next
    case False
    with j(2) have t: "ticket (qs ! j) = Some r" by simp
    have "r \<noteq> n" using new [OF j(1)] t by auto
    then show ?thesis using old [OF j(1) t] by (simp add: le_Suc_eq)
  qed
  ultimately show ?thesis by (simp add: tickets_inv_def card t)
qed

section \<open>The ids in the table\<close>

definition open_ids :: "requester list \<Rightarrow> u32 set" where
  "open_ids qs = {r. \<exists>i < length qs. open_id (qs ! i) = Some r}"

lemma open_ids_map: "open_ids qs = {r. Some r \<in> set (map open_id qs)}"
proof -
  have "Some r \<in> set (map open_id qs) \<longleftrightarrow> (\<exists>i < length qs. open_id (qs ! i) = Some r)" for r
    unfolding in_set_conv_nth by auto
  then show ?thesis by (simp add: open_ids_def del: set_map)
qed

lemma open_ids_same:
  "i < length qs \<Longrightarrow> open_id q = open_id (qs ! i) \<Longrightarrow> open_ids (qs[i := q]) = open_ids qs"
  by (auto simp: open_ids_def nth_list_update split: if_splits)

lemma open_ids_insert:
  "i < length qs \<Longrightarrow> open_id (qs ! i) = None \<Longrightarrow> open_id q = Some r \<Longrightarrow>
   open_ids (qs[i := q]) = insert r (open_ids qs)"
  by (auto simp: open_ids_def nth_list_update split: if_splits) (metis option.distinct(1))+

lemma open_ids_delete:
  assumes "tickets_inv qs n" "i < length qs" "open_id (qs ! i) = Some r" "open_id q = None"
  shows "open_ids (qs[i := q]) = open_ids qs - {r}"
proof -
  have other: "open_id (qs ! j) \<noteq> Some r" if "j < length qs" "j \<noteq> i" for j
    using that tickets_inv_unique [OF assms(1) that(1) assms(2)] open_ticket assms(3) by blast
  have "r' \<in> open_ids (qs[i := q]) \<longleftrightarrow> r' \<in> open_ids qs \<and> r' \<noteq> r" for r'
  proof
    assume "r' \<in> open_ids (qs[i := q])"
    then obtain j where "j < length qs" "j \<noteq> i" "open_id (qs ! j) = Some r'"
      using assms(2,4) by (auto simp: open_ids_def nth_list_update split: if_splits)
    then show "r' \<in> open_ids qs \<and> r' \<noteq> r" using other by (auto simp: open_ids_def)
  next
    assume "r' \<in> open_ids qs \<and> r' \<noteq> r"
    then obtain j where j: "j < length qs" "open_id (qs ! j) = Some r'" and "r' \<noteq> r"
      by (auto simp: open_ids_def)
    then have "j \<noteq> i" using assms(3) by auto
    with j show "r' \<in> open_ids (qs[i := q])" by (auto simp: open_ids_def intro!: exI [of _ j])
  qed
  then show ?thesis by auto
qed

definition table_inv :: "concurrent \<Rightarrow> bool" where
  "table_inv s \<longleftrightarrow> pending_wf (cc_server s) \<and> distinct (pending_ids (cc_server s)) \<and>
     set (pending_ids (cc_server s)) = open_ids (cc_threads s) \<and>
     tickets_inv (cc_threads s) (sv_next_request_id (cc_server s))"

lemmas table_invD = table_inv_def [THEN iffD1, THEN conjunct1]
  table_inv_def [THEN iffD1, THEN conjunct2, THEN conjunct1]
  table_inv_def [THEN iffD1, THEN conjunct2, THEN conjunct2, THEN conjunct1]
  table_inv_def [THEN iffD1, THEN conjunct2, THEN conjunct2, THEN conjunct2]

lemma open_id_in_table:
  "table_inv s \<Longrightarrow> i < length (cc_threads s) \<Longrightarrow> open_id (cc_threads s ! i) = Some r \<Longrightarrow>
   r \<in> set (pending_ids (cc_server s))"
  using table_invD(3) by (fastforce simp: open_ids_def)

lemma move_threads [simp]:
  "ipc_move s a s' \<Longrightarrow> length (cc_threads s') = length (cc_threads s)"
  by (auto elim: ipc_move.cases)

lemma requester_table_inv:
  assumes inv: "table_inv s" and few: "length (cc_threads s) < 2 ^ 32"
    and i: "i < length (cc_threads s)" and step: "requester_step (cc_threads s ! i) (cc_server s) q sv"
  shows "table_inv (s\<lparr>cc_server := sv, cc_threads := (cc_threads s)[i := q]\<rparr>)"
proof -
  note d = table_invD [OF inv]
  show ?thesis
    using step
  proof (cases rule: requester_step_effect)
    case quiet
    then show ?thesis
      using d i by (simp add: table_inv_def tickets_same open_ids_same pending_ids_entries)
  next
    case take_id
    then show ?thesis
      using d i tickets_draw [OF d(4) i take_id(1,2) few]
      by (simp add: table_inv_def open_ids_same pending_ids_entries)
  next
    case (allocate rid slot)
    note a = allocate_entries [OF d(1) allocate(6)]
    have "rid \<notin> open_ids (cc_threads s)"
    proof
      assume "rid \<in> open_ids (cc_threads s)"
      then obtain j where "j < length (cc_threads s)" "open_id (cc_threads s ! j) = Some rid"
        by (auto simp: open_ids_def)
      then have "j = i" using tickets_inv_unique [OF d(4) _ i open_ticket allocate(1)] by blast
      then show False using allocate(3) \<open>open_id (cc_threads s ! j) = Some rid\<close> by simp
    qed
    then show ?thesis
      using d i a allocate
      by (simp add: table_inv_def tickets_same open_ids_insert pending_ids_entries)
  next
    case (clean rid r)
    have o: "open_id (cc_threads s ! i) = Some rid" by (simp add: clean)
    show ?thesis
      using d i clean pending_remove [OF d(1), of rid] open_ids_delete [OF d(4) i o, of q]
      by (simp add: table_inv_def tickets_same)
  qed
qed

lemma move_table_inv:
  assumes "ipc_move s a s'" "table_inv s" "length (cc_threads s) < 2 ^ 32"
  shows "table_inv s'"
  using assms(1)
proof cases
  case (env e)
  then show ?thesis
    using assms(2) pending_env_step [OF table_invD(1) [OF assms(2)], of e] by (simp add: table_inv_def)
next
  case (requester i q sv)
  then show ?thesis using requester_table_inv [OF assms(2,3)] by simp
qed

lemma initial_ids: "pending_ids ipc_initial = []" "entries ipc_initial = []"
  by (simp_all add: pending_ids_def entries_def ipc_initial_def)

lemma at_start_simps: "at_start q \<Longrightarrow> ticket q = None \<and> open_id q = None \<and> slot_of q = None"
  by (auto simp: at_start_def)

lemma initial_table_inv: "\<forall>q \<in> set qs. at_start q \<Longrightarrow> table_inv (cc_initial qs)"
proof -
  assume start: "\<forall>q \<in> set qs. at_start q"
  then have "ticket (qs ! i) = None \<and> open_id (qs ! i) = None" if "i < length qs" for i
    using that at_start_simps by simp
  then have "ticketed qs = {}" "open_ids qs = {}" by (auto simp: ticketed_def open_ids_def)
  then show ?thesis
    using \<open>\<And>i. i < length qs \<Longrightarrow> ticket (qs ! i) = None \<and> open_id (qs ! i) = None\<close>
    by (simp add: table_inv_def cc_initial_def initial_ids tickets_inv_def pending_wf_def)
      (simp add: ipc_initial_def)
qed

lemma reaches_table_inv:
  assumes "reaches P (cc_initial qs) s" "\<forall>q \<in> set qs. at_start q" "length qs < 2 ^ 32"
  shows "table_inv s \<and> length (cc_threads s) = length qs"
  using assms(1)
proof (induction rule: reaches.induct)
  case here
  then show ?case using initial_table_inv [OF assms(2)] by (simp add: cc_initial_def)
next
  case (further s a s')
  then show ?case using move_table_inv assms(3) by simp
qed

section \<open>Pointers and answers\<close>

definition slots_ok :: "concurrent \<Rightarrow> bool" where
  "slots_ok s \<longleftrightarrow> (\<forall>i < length (cc_threads s). \<forall>r k. slot_of (cc_threads s ! i) = Some (r, k) \<longrightarrow>
     k < sv_pending_count (cc_server s) \<and> pd_request_id (sv_pending (cc_server s) ! k) = r)"

text \<open>A completed slot holds an answer that was read; a result, once known, is one of the two
  defaults or an answer to the request's own id.\<close>

definition answers_inv :: "concurrent \<Rightarrow> bool" where
  "answers_inv s \<longleftrightarrow> (\<forall>p \<in> set (entries (cc_server s)). pd_completed p \<longrightarrow>
     (pd_request_id p, pd_response p) \<in> set (cc_answers s))"

definition own_result :: "concurrent \<Rightarrow> u32 \<Rightarrow> int \<Rightarrow> bool" where
  "own_result s rid r \<longleftrightarrow> r = LEXEC_RESPONSE_NO_CLIENT \<or> r = LEXEC_RESPONSE_TIMEOUT \<or>
     (rid, r) \<in> set (cc_answers s)"

definition results_ok :: "concurrent \<Rightarrow> bool" where
  "results_ok s \<longleftrightarrow> (\<forall>q \<in> set (cc_threads s). \<forall>rid r.
     q = At_cleanup rid r \<or> q = At_end (Some rid) r \<longrightarrow> own_result s rid r)"

lemma slot_iff:
  "pending_wf sv \<Longrightarrow> (k < sv_pending_count sv \<and> pd_request_id (sv_pending sv ! k) = r) \<longleftrightarrow>
     (k < length (pending_ids sv) \<and> pending_ids sv ! k = r)"
  by (auto simp: pending_ids_entries)

lemma butlast_slot:
  assumes "distinct xs" "k < length xs" "xs ! k \<noteq> last xs"
  shows "k < length (remove1 (last xs) xs) \<and> remove1 (last xs) xs ! k = xs ! k"
proof -
  obtain ys y where xs: "xs = ys @ [y]" using assms(2) by (cases xs rule: rev_exhaust) auto
  then have "remove1 (last xs) xs = ys" using assms(1) by (simp add: remove1_append)
  moreover have "k < length ys" using assms(2,3) by (simp add: xs nth_append split: if_splits)
  ultimately show ?thesis by (simp add: xs nth_append)
qed

lemma requester_step_wf:
  assumes "requester_step q sv q' sv'" "pending_wf sv"
  shows "pending_wf sv'"
  using assms(1)
proof (cases rule: requester_step_effect)
  case (allocate rid slot)
  then show ?thesis using allocate_entries(1) [OF assms(2)] by blast
qed (use assms(2) pending_remove(1) in simp_all)

lemma requester_slots_ok:
  assumes inv: "table_inv s" and ok: "slots_ok s" and i: "i < length (cc_threads s)"
    and step: "requester_step (cc_threads s ! i) (cc_server s) q sv"
    and nested: "nested s (Move i)"
  shows "slots_ok (s\<lparr>cc_server := sv, cc_threads := (cc_threads s)[i := q]\<rparr>)"
proof -
  let ?sv = "cc_server s" and ?qs = "cc_threads s"
  note d = table_invD [OF inv]
  have sv: "pending_wf sv" by (rule requester_step_wf [OF step d(1)])
  have ok': "k < length (pending_ids ?sv) \<and> pending_ids ?sv ! k = r"
    if "j < length ?qs" "slot_of (?qs ! j) = Some (r, k)" for j r k
    using ok that slot_iff [OF d(1)] by (auto simp: slots_ok_def)
  have "k < length (pending_ids sv) \<and> pending_ids sv ! k = r"
    if j: "j < length ?qs" "slot_of (?qs[i := q] ! j) = Some (r, k)" for j r k
    using step
  proof (cases rule: requester_step_effect)
    case quiet
    then have "slot_of (?qs ! j) = Some (r, k)" using j i by (auto simp: nth_list_update split: if_splits)
    moreover have "pending_ids sv = pending_ids ?sv" using quiet(4) by (simp add: pending_ids_entries)
    ultimately show ?thesis using ok' [OF j(1)] by simp
  next
    case take_id
    then have "slot_of (?qs ! j) = Some (r, k)" using j i by (auto simp: nth_list_update split: if_splits)
    moreover have "pending_ids sv = pending_ids ?sv" using take_id(6) by (simp add: pending_ids_entries)
    ultimately show ?thesis using ok' [OF j(1)] by simp
  next
    case (allocate rid slot)
    note a = allocate_entries [OF d(1) allocate(6)]
    show ?thesis
    proof (cases "j = i")
      case True
      then have "r = rid" "k = slot" using j allocate(5) by simp_all
      then show ?thesis using a d(1) by (simp add: pending_ids_entries nth_append)
    next
      case False
      then show ?thesis using ok' [of j r k] j a by (simp add: pending_ids_entries nth_append)
    qed
  next
    case (clean rid x)
    then have "j \<noteq> i" using j by auto
    with j have s: "slot_of (?qs ! j) = Some (r, k)" by simp
    have "r \<noteq> rid"
      using tickets_inv_unique [OF d(4) j(1) i open_ticket [OF slot_open [OF s]]] clean(1) \<open>j \<noteq> i\<close> by auto
    moreover have "last (pending_ids ?sv) = rid" using nested clean(1) by (simp add: nested_def)
    ultimately show ?thesis
      using ok' [OF j(1) s] butlast_slot [OF d(2), of k] pending_remove(2) [OF d(1), of rid]
      by (simp add: clean(3))
  qed
  then show ?thesis using slot_iff [OF sv] by (simp add: slots_ok_def)
qed

lemma move_slots_ok:
  assumes "ipc_move s a s'" "table_inv s" "slots_ok s" "nested s a"
  shows "slots_ok s'"
  using assms(1)
proof cases
  case (env e)
  note e = pending_env_step [OF table_invD(1) [OF assms(2)], of e]
  have "slots_ok s' \<longleftrightarrow> slots_ok s"
    unfolding slots_ok_def env slot_iff [OF table_invD(1) [OF assms(2)]]
    using slot_iff [OF e(1)] by (simp add: e(2))
  then show ?thesis using assms(3) by blast
next
  case (requester i q sv)
  then show ?thesis using requester_slots_ok [OF assms(2,3)] assms(4) by simp
qed

lemma move_answers_inv:
  assumes "ipc_move s a s'" "table_inv s" "answers_inv s"
  shows "answers_inv s'"
  using assms(1)
proof cases
  case (env e)
  note wf = table_invD(1) [OF assms(2)]
  have "pd_completed p \<longrightarrow> (pd_request_id p, pd_response p) \<in> set (cc_answers s @ answer_of e)"
    if p: "p \<in> set (entries (ipc_env_step e (cc_server s)))" for p
  proof (cases "p \<in> set (entries (cc_server s))")
    case True
    then show ?thesis using assms(3) by (auto simp: answers_inv_def)
  next
    case False
    then obtain fd rs i where e: "e = Ev_response fd rs" and f: "find_pending (cc_server s) (rs_request_id rs) = Some i"
      using p by (auto simp: entries_env_step [OF wf] split: ipc_event.splits option.splits)
    note i = find_pending_SomeD [OF wf f]
    have "p \<in> set ((entries (cc_server s))[i := (entries (cc_server s) ! i)
        \<lparr>pd_response := rs_response rs, pd_completed := True\<rparr>])"
      using p entries_env_step [OF wf, of e] by (simp add: e f)
    then have "p = (entries (cc_server s) ! i)\<lparr>pd_response := rs_response rs, pd_completed := True\<rparr>"
      using False set_update_subset_insert by fastforce
    then show ?thesis using e i by simp
  qed
  then show ?thesis by (simp add: answers_inv_def env)
next
  case (requester i q sv)
  from requester(4) have "set (entries sv) \<subseteq> set (entries (cc_server s)) \<union> {p. \<not> pd_completed p}"
  proof (cases rule: requester_step_effect)
    case (allocate rid slot)
    then show ?thesis using allocate_entries(4) [OF table_invD(1) [OF assms(2)] allocate(6)] by simp
  next
    case (clean rid r)
    then show ?thesis using pending_remove(3) [OF table_invD(1) [OF assms(2)], of rid] by auto
  qed simp_all
  then show ?thesis using assms(3) by (auto simp: answers_inv_def requester)
qed

lemma requester_result:
  assumes "table_inv s" "slots_ok s" "answers_inv s" "i < length (cc_threads s)" "cc_threads s ! i = q0"
    and "requester_step q0 (cc_server s) q sv" "q = At_cleanup rid r \<or> q = At_end (Some rid) r"
    and "results_ok s"
  shows "own_result s rid r"
  using assms(6)
proof (cases rule: requester_step.cases)
  case (answered k rid' t)
  then have k: "k < sv_pending_count (cc_server s)" "pd_request_id (sv_pending (cc_server s) ! k) = rid"
    using assms(2,4,5,7) by (auto simp: slots_ok_def)
  then have "sv_pending (cc_server s) ! k \<in> set (entries (cc_server s))"
    using table_invD(1) [OF assms(1)] by (metis length_entries nth_entries nth_mem)
  then show ?thesis using assms(3,7) answered k by (auto simp: answers_inv_def own_result_def)
next
  case (clean rid' r')
  have "q0 \<in> set (cc_threads s)" using assms(4,5) nth_mem by metis
  then show ?thesis using assms(7,8) clean by (auto simp: results_ok_def)
qed (use assms(7) in \<open>auto simp: own_result_def\<close>)

lemma own_result_mono: "own_result s rid r \<Longrightarrow> set (cc_answers s) \<subseteq> set (cc_answers s') \<Longrightarrow> own_result s' rid r"
  by (auto simp: own_result_def)

lemma move_results_ok:
  assumes "ipc_move s a s'" "table_inv s" "slots_ok s" "answers_inv s" "results_ok s"
  shows "results_ok s'"
  using assms(1)
proof cases
  case (env e)
  then show ?thesis using assms(5) by (fastforce simp: results_ok_def intro: own_result_mono)
next
  case (requester i q sv)
  have "own_result s rid r" if "p \<in> set (cc_threads s')" "p = At_cleanup rid r \<or> p = At_end (Some rid) r" for p rid r
  proof (cases "p = q")
    case True
    then show ?thesis
      using requester_result [OF assms(2-4) requester(3) refl requester(4) _ assms(5)] that(2) by blast
  next
    case False
    then have "p \<in> set (cc_threads s)"
      using that(1) requester(2) set_update_subset_insert [of "cc_threads s" i q] by auto
    then show ?thesis using assms(5) that(2) by (auto simp: results_ok_def)
  qed
  then show ?thesis using requester(2) by (auto simp: results_ok_def own_result_def)
qed

text \<open>All four along every run whose removals are nested.\<close>

lemma reaches_nested:
  assumes "reaches nested (cc_initial qs) s" "\<forall>q \<in> set qs. at_start q" "length qs < 2 ^ 32"
  shows "slots_ok s \<and> answers_inv s \<and> results_ok s"
  using assms(1)
proof (induction rule: reaches.induct)
  case here
  have "slot_of (qs ! i) = None" if "i < length qs" for i using that assms(2) at_start_simps by simp
  then show ?case using assms(2)
    by (fastforce simp: slots_ok_def answers_inv_def results_ok_def cc_initial_def initial_ids at_start_def)
next
  case (further s a s')
  then show ?case
    using reaches_table_inv [OF further(1) assms(2,3)] move_slots_ok move_answers_inv move_results_ok by blast
qed

section \<open>One request at a time\<close>

text \<open>With at most one request in the table, every removal is nested.\<close>

definition alone :: "concurrent \<Rightarrow> action \<Rightarrow> bool" where
  "alone s a \<longleftrightarrow> sv_pending_count (cc_server s) \<le> 1"

lemma alone_nested:
  assumes "table_inv s" "alone s a" "\<And>i. a = Move i \<Longrightarrow> i < length (cc_threads s)"
  shows "nested s a"
proof -
  have "last (pending_ids (cc_server s)) = rid"
    if "a = Move i" "cc_threads s ! i = At_cleanup rid r" for i rid r
  proof -
    have "rid \<in> set (pending_ids (cc_server s))"
      using open_id_in_table [OF assms(1)] assms(3) that by simp
    moreover have "length (pending_ids (cc_server s)) \<le> 1"
      using assms(2) table_invD(1) [OF assms(1)] by (simp add: alone_def pending_ids_entries)
    ultimately show ?thesis by (cases "pending_ids (cc_server s)") auto
  qed
  then show ?thesis by (simp add: nested_def)
qed

lemma reaches_alone_nested:
  assumes "reaches alone (cc_initial qs) s" "\<forall>q \<in> set qs. at_start q" "length qs < 2 ^ 32"
  shows "reaches nested (cc_initial qs) s"
  using assms(1)
proof (induction rule: reaches.induct)
  case (further s a s')
  have "nested s a"
    using further(3)
  proof cases
    case (requester i q sv)
    then show ?thesis
      using alone_nested [OF _ further(2)] reaches_table_inv [OF further(1) assms(2,3)] by simp
  qed (simp add: nested_def)
  then show ?case using further by (blast intro: reaches.further)
qed (rule reaches.here)

section \<open>A call is a run\<close>

text \<open>A run after which requester \<open>i\<close> is at \<open>q\<close>, the server is \<open>sv\<close> and no other requester has moved.\<close>

definition gets :: "concurrent \<Rightarrow> nat \<Rightarrow> requester \<Rightarrow> ipc_server \<Rightarrow> bool" where
  "gets s i q sv \<longleftrightarrow> (\<exists>s'. reaches anyhow s s' \<and> cc_server s' = sv \<and> cc_threads s' = (cc_threads s)[i := q])"

lemma gets_here: "cc_threads s ! i = q \<Longrightarrow> gets s i q (cc_server s)"
  by (auto simp: gets_def intro!: exI [of _ s] reaches.here)

lemma gets_move:
  assumes "gets s i q sv" "i < length (cc_threads s)" "requester_step q sv q' sv'"
  shows "gets s i q' sv'"
proof -
  obtain s' where s': "reaches anyhow s s'" "cc_server s' = sv" "cc_threads s' = (cc_threads s)[i := q]"
    using assms(1) by (auto simp: gets_def)
  have "ipc_move s' (Move i) (s'\<lparr>cc_server := sv', cc_threads := (cc_threads s')[i := q']\<rparr>)"
    using assms(2,3) s' by (intro ipc_move.requester) simp_all
  then show ?thesis
    using s' by (auto simp: gets_def anyhow_def intro!: exI [of _ "s'\<lparr>cc_server := sv', cc_threads := (cc_threads s')[i := q']\<rparr>"]
        elim: reaches.further)
qed

lemma gets_env: "gets s i q sv \<Longrightarrow> gets s i q (ipc_env_step e sv)"
  unfolding gets_def using reaches.further [OF _ _ ipc_move.env, of anyhow] by (fastforce simp: anyhow_def)

lemma gets_envs: "gets s i q sv \<Longrightarrow> gets s i q (fold ipc_env_step es sv)"
  by (induction es arbitrary: sv) (auto intro: gets_env)

lemma gets_wait:
  "gets s i (At_wait rid t slot) sv \<Longrightarrow>
   (case wait_loop slot (0 < t) sv es of
      Ret (sv', rest) \<Rightarrow> gets s i (At_wait rid t slot) sv' \<and> (pd_completed (sv_pending sv' ! slot) \<or> 0 < t)
    | Blocked \<Rightarrow> \<exists>sv'. gets s i (At_wait rid t slot) sv' \<and> \<not> pd_completed (sv_pending sv' ! slot) \<and> \<not> 0 < t
    | Undef \<Rightarrow> False)"
  by (induction es arbitrary: sv) (auto intro: gets_env)

lemma gets_stuck:
  assumes "gets s i (At_wait rid t slot) sv" "i < length (cc_threads s)"
    and "\<not> pd_completed (sv_pending sv ! slot)" "\<not> 0 < t"
  shows "\<exists>s'. reaches anyhow s s' \<and> (\<forall>s''. \<not> ipc_move s' (Move i) s'')"
proof -
  obtain s' where s': "reaches anyhow s s'" "cc_server s' = sv" "cc_threads s' ! i = At_wait rid t slot"
    using assms(1,2) by (auto simp: gets_def)
  have "\<not> ipc_move s' (Move i) s''" for s''
  proof
    assume "ipc_move s' (Move i) s''"
    then obtain q sv' where "requester_step (cc_threads s' ! i) (cc_server s') q sv'" by (rule moveE)
    then show False using s'(2,3) assms(3,4) by (simp add: wait_step)
  qed
  then show ?thesis using s'(1) by blast
qed

lemma gets_cleanup:
  "gets s i (At_cleanup rid x) sv \<Longrightarrow> i < length (cc_threads s) \<Longrightarrow>
   gets s i (At_end (Some rid) x) (remove_pending rid (fold ipc_env_step es sv))"
  by (rule gets_move [OF gets_envs _ requester_step.clean])

text \<open>What the theorem says of the result of a call, and the part of the call behind the write.\<close>

definition run_of :: "concurrent \<Rightarrow> nat \<Rightarrow> (ipc_server \<times> int) outcome \<Rightarrow> bool" where
  "run_of s i out \<longleftrightarrow> (case out of
      Ret (sv, x) \<Rightarrow> \<exists>rid. gets s i (At_end rid x) sv
    | Blocked \<Rightarrow> \<exists>s'. reaches anyhow s s' \<and> (\<forall>s''. \<not> ipc_move s' (Move i) s'')
    | Undef \<Rightarrow> False)"

lemma run_of_end: "gets s i (At_end rid x) sv \<Longrightarrow> run_of s i (Ret (sv, x))"
  by (auto simp: run_of_def)

lemma run_of_wait:
  assumes i: "i < length (cc_threads s)" and at: "gets s i (At_wait rid t slot) sv"
  shows "run_of s i (bind_outcome (wait_loop slot (0 < t) sv es) (\<lambda>(sv4, rest).
     Ret (remove_pending rid (fold ipc_env_step rest sv4),
       if pd_completed (sv_pending sv4 ! slot) then pd_response (sv_pending sv4 ! slot)
       else LEXEC_RESPONSE_TIMEOUT)))"
proof (cases "wait_loop slot (0 < t) sv es")
  case (Ret r)
  obtain sv4 rest where r: "r = (sv4, rest)" by (cases r)
  have w: "gets s i (At_wait rid t slot) sv4" "pd_completed (sv_pending sv4 ! slot) \<or> 0 < t"
    using gets_wait [OF at, of es] by (simp_all add: Ret r)
  let ?x = "if pd_completed (sv_pending sv4 ! slot) then pd_response (sv_pending sv4 ! slot)
    else LEXEC_RESPONSE_TIMEOUT"
  have "requester_step (At_wait rid t slot) sv4 (At_cleanup rid ?x) sv4"
    using w(2) by (auto simp: wait_step)
  from run_of_end [OF gets_cleanup [OF gets_move [OF w(1) i this] i]]
  show ?thesis by (simp add: Ret r)
next
  case Blocked
  then show ?thesis using gets_wait [OF at, of es] gets_stuck [OF _ i] by (auto simp: run_of_def)
next
  case Undef
  then show ?thesis using gets_wait [OF at, of es] by simp
qed

lemma run_of_tail:
  assumes i: "i < length (cc_threads s)" and at: "gets s i (At_write copy t fd slot) sv"
    and rid: "rq_request_id copy = rid"
  shows "run_of s i (request_tail env t slot rid fd copy sv)"
proof (cases "env_write_ok env")
  case True
  then show ?thesis
    using run_of_wait [OF i gets_move [OF at i requester_step.written, unfolded rid], of "env_wait env"]
    by (simp add: request_tail_def)
next
  case False
  then show ?thesis
    using run_of_end [OF gets_cleanup [OF gets_move [OF at i requester_step.write_failed, unfolded rid] i], of "[]"]
    by (simp add: request_tail_def)
qed

lemma call_is_run_of:
  assumes i: "i < length (cc_threads s)" "cc_threads s ! i = At_start req t"
  shows "run_of s i (ipc_request_permission env req t (cc_server s))"
proof -
  let ?sv = "cc_server s"
  have drawn: "gets s i (At_allocate (req\<lparr>rq_request_id := rid\<rparr>) t (sv_client_fd ?sv)) sv1"
    if "0 \<le> sv_client_fd ?sv" "take_request_id (fold ipc_env_step (env_before env) ?sv) = (rid, sv1)" for rid sv1
    using gets_move [OF gets_envs [OF gets_move [OF gets_here [OF i(2)] i(1) requester_step.client [OF that(1)]]]
        i(1) requester_step.take_id [OF that(2)]] .
  show ?thesis
  proof (cases rule: request_cases [of ?sv env req t])
    case no_client
    then show ?thesis
      using run_of_end [OF gets_move [OF gets_here [OF i(2)] i(1) requester_step.no_client]] by simp
  next
    case (full rid sv1)
    then show ?thesis using run_of_end [OF gets_move [OF drawn i(1) requester_step.full]] by simp
  next
    case (slot rid sv1 k sv2)
    have "gets s i (At_write (req\<lparr>rq_request_id := rid\<rparr>) t (sv_client_fd ?sv) k) sv2"
      using gets_move [OF drawn [OF slot(1,2)] i(1) requester_step.allocate] slot(3) by simp
    then show ?thesis unfolding slot(4) by (intro run_of_tail [OF i(1) gets_envs]) simp_all
  qed
qed

section \<open>A scheduler\<close>

text \<open>
  Runs of the relation that can be evaluated: the moves are given, writes succeed, a requester
  that has to wait does not move.
\<close>

fun requester_next :: "requester \<Rightarrow> ipc_server \<Rightarrow> requester \<times> ipc_server" where
  "requester_next (At_start req t) sv =
     (if sv_client_fd sv < 0 then (At_end None LEXEC_RESPONSE_NO_CLIENT, sv)
      else (At_take req t (sv_client_fd sv), sv))"
| "requester_next (At_take req t fd) sv =
     (case take_request_id sv of (rid, sv') \<Rightarrow> (At_allocate (req\<lparr>rq_request_id := rid\<rparr>) t fd, sv'))"
| "requester_next (At_allocate req t fd) sv =
     (case allocate_pending (rq_request_id req) sv of
        None \<Rightarrow> (At_end (Some (rq_request_id req)) LEXEC_RESPONSE_TIMEOUT, sv)
      | Some (slot, sv') \<Rightarrow> (At_write req t fd slot, sv'))"
| "requester_next (At_write req t fd slot) sv =
     (At_wait (rq_request_id req) t slot, sv\<lparr>sv_sent := sv_sent sv @ [(fd, req)]\<rparr>)"
| "requester_next (At_wait rid t slot) sv =
     (if pd_completed (sv_pending sv ! slot) then (At_cleanup rid (pd_response (sv_pending sv ! slot)), sv)
      else if 0 < t then (At_cleanup rid LEXEC_RESPONSE_TIMEOUT, sv)
      else (At_wait rid t slot, sv))"
| "requester_next (At_cleanup rid r) sv = (At_end (Some rid) r, remove_pending rid sv)"
| "requester_next (At_end rid r) sv = (At_end rid r, sv)"

lemma requester_next_step:
  "requester_next q sv = (q', sv') \<Longrightarrow> requester_step q sv q' sv' \<or> q' = q \<and> sv' = sv"
  by (cases "(q, sv)" rule: requester_next.cases)
    (auto intro: requester_step.intros split: if_splits option.splits prod.splits)

fun play :: "action list \<Rightarrow> concurrent \<Rightarrow> concurrent" where
  "play [] s = s"
| "play (Env e # as) s =
     play as (s\<lparr>cc_server := ipc_env_step e (cc_server s), cc_answers := cc_answers s @ answer_of e\<rparr>)"
| "play (Move i # as) s =
     (if i < length (cc_threads s)
      then case requester_next (cc_threads s ! i) (cc_server s) of
             (q, sv) \<Rightarrow> play as (s\<lparr>cc_server := sv, cc_threads := (cc_threads s)[i := q]\<rparr>)
      else play as s)"

text \<open>Every state a move starts from satisfies \<open>P\<close>.\<close>

fun played :: "(concurrent \<Rightarrow> action \<Rightarrow> bool) \<Rightarrow> action list \<Rightarrow> concurrent \<Rightarrow> bool" where
  "played P [] s = True"
| "played P (a # as) s = (P s a \<and> played P as (play [a] s))"

lemma reaches_first: "ipc_move s a s' \<Longrightarrow> P s a \<Longrightarrow> reaches P s' t \<Longrightarrow> reaches P s t"
  by (erule reaches_trans) (rule reaches_one)

lemma play_reaches: "played P as s \<Longrightarrow> reaches P s (play as s)"
proof (induction as s rule: play.induct)
  case (1 s)
  show ?case by (simp add: reaches.here)
next
  case (2 e as s)
  then show ?case by (auto intro: reaches_first [OF ipc_move.env])
next
  case (3 i as s)
  show ?case
  proof (cases "i < length (cc_threads s)")
    case True
    obtain q sv where n: "requester_next (cc_threads s ! i) (cc_server s) = (q, sv)" by fastforce
    have P: "P s (Move i)" and rest: "played P as (s\<lparr>cc_server := sv, cc_threads := (cc_threads s)[i := q]\<rparr>)"
      using "3.prems" True n by simp_all
    note IH = "3.IH"(1) [OF True n [symmetric] rest]
    from requester_next_step [OF n] show ?thesis
    proof
      assume "requester_step (cc_threads s ! i) (cc_server s) q sv"
      then show ?thesis using reaches_first [OF ipc_move.requester [OF True] P IH] n True by simp
    next
      assume "q = cc_threads s ! i \<and> sv = cc_server s"
      then show ?thesis using IH n True by simp
    qed
  qed (use 3 in simp)
qed

lemma play_anyhow: "reaches anyhow s (play as s)"
proof (rule play_reaches)
  show "played anyhow as s" by (induction as arbitrary: s) (simp_all add: anyhow_def)
qed

section \<open>What a requester can rely on\<close>

text \<open>With as many requesters as have begun and ended, the table is as empty as at the start.\<close>

lemma table_exact:
  assumes "reaches P (cc_initial qs) s" "\<forall>q \<in> set qs. at_start q" "length qs < 2 ^ 32"
  shows "distinct (pending_ids (cc_server s))" "set (pending_ids (cc_server s)) = open_ids (cc_threads s)"
    "ipc_pending_count (cc_server s) = card (open_ids (cc_threads s))"
    "ipc_pending_count (cc_server s) \<le> MAX_PENDING_REQUESTS"
    "open_ids (cc_threads s) = {} \<Longrightarrow> ipc_idle (cc_server s)"
proof -
  have inv: "table_inv s" using reaches_table_inv [OF assms] by blast
  note d = table_invD [OF inv]
  show "distinct (pending_ids (cc_server s))" "set (pending_ids (cc_server s)) = open_ids (cc_threads s)"
    by (rule d)+
  show n: "ipc_pending_count (cc_server s) = card (open_ids (cc_threads s))"
    using distinct_card [OF d(2)] d(1,3) by (simp add: ipc_pending_count_def pending_ids_entries)
  show "ipc_pending_count (cc_server s) \<le> MAX_PENDING_REQUESTS"
    using d(1) by (simp add: ipc_pending_count_def pending_wf_def)
  show "open_ids (cc_threads s) = {} \<Longrightarrow> ipc_idle (cc_server s)"
    using n d(1) by (simp add: ipc_idle_def ipc_pending_count_def pending_wf_def)
qed

text \<open>An answer to a waiting requester with a right pointer is there for it to take.\<close>

lemma answer_arrives:
  assumes inv: "table_inv s" and ok: "slots_ok s" and i: "i < length (cc_threads s)"
    and at: "cc_threads s ! i = At_wait rid t k"
  shows "requester_step (At_wait rid t k) (ipc_env_step (Ev_response fd \<lparr>rs_request_id = rid, rs_response = x\<rparr>) (cc_server s))
     (At_cleanup rid x) (ipc_env_step (Ev_response fd \<lparr>rs_request_id = rid, rs_response = x\<rparr>) (cc_server s))"
proof -
  note d = table_invD [OF inv]
  have k: "k < sv_pending_count (cc_server s)" "pd_request_id (sv_pending (cc_server s) ! k) = rid"
    using ok i at by (auto simp: slots_ok_def)
  have "find_pending (cc_server s) rid = Some k" by (rule find_pending_found [OF d(1,2) k])
  then show ?thesis
    using k(1) d(1) by (simp add: wait_step reader_response_def pending_wf_def)
qed

section \<open>Nobody holds up a requester with a deadline\<close>

text \<open>Steps a requester has left at most, and requesters whose wait has a deadline.\<close>

fun stage :: "requester \<Rightarrow> nat" where
  "stage (At_start req t) = 6"
| "stage (At_take req t fd) = 5"
| "stage (At_allocate req t fd) = 4"
| "stage (At_write req t fd slot) = 3"
| "stage (At_wait rid t slot) = 2"
| "stage (At_cleanup rid r) = 1"
| "stage (At_end rid r) = 0"

fun has_deadline :: "requester \<Rightarrow> bool" where
  "has_deadline (At_start req t) = (0 < t)"
| "has_deadline (At_take req t fd) = (0 < t)"
| "has_deadline (At_allocate req t fd) = (0 < t)"
| "has_deadline (At_write req t fd slot) = (0 < t)"
| "has_deadline (At_wait rid t slot) = (0 < t)"
| "has_deadline _ = True"

definition only :: "nat \<Rightarrow> concurrent \<Rightarrow> action \<Rightarrow> bool" where
  "only i s a \<longleftrightarrow> a = Move i"

lemma requester_step_stage:
  assumes "requester_step q sv q' sv'"
  shows "stage q' < stage q" "has_deadline q \<Longrightarrow> has_deadline q'"
  using assms by (cases rule: requester_step.cases; simp)+

lemma requester_progress:
  assumes "has_deadline q" "stage q \<noteq> 0"
  shows "\<exists>q' sv'. requester_step q sv q' sv'"
proof (cases q)
  case (At_start req t)
  then show ?thesis
    using requester_step.no_client [of sv req t] requester_step.client [of sv req t] by (meson not_less)
next
  case (At_take req t fd)
  then show ?thesis using requester_step.take_id [OF prod.collapse [symmetric]] by blast
next
  case (At_allocate req t fd)
  then show ?thesis
    by (cases "allocate_pending (rq_request_id req) sv")
      (auto intro: requester_step.full requester_step.allocate)
next
  case (At_wait rid t slot)
  then show ?thesis using assms(1) by (auto simp: wait_step)
qed (use assms in \<open>auto intro: requester_step.written requester_step.clean\<close>)

lemma requester_can_end:
  assumes "i < length (cc_threads s)" "has_deadline (cc_threads s ! i)"
  shows "\<exists>s'. reaches (only i) s s' \<and> stage (cc_threads s' ! i) = 0"
  using assms
proof (induction "stage (cc_threads s ! i)" arbitrary: s rule: less_induct)
  case less
  show ?case
  proof (cases "stage (cc_threads s ! i) = 0")
    case True
    then show ?thesis by (blast intro: reaches.here)
  next
    case False
    obtain q sv where step: "requester_step (cc_threads s ! i) (cc_server s) q sv"
      using requester_progress [OF less.prems(2) False] by blast
    let ?s = "s\<lparr>cc_server := sv, cc_threads := (cc_threads s)[i := q]\<rparr>"
    obtain s' where "reaches (only i) ?s s'" "stage (cc_threads s' ! i) = 0"
      using less.hyps [of ?s] less.prems requester_step_stage [OF step] by auto
    then show ?thesis
      using reaches_first [OF ipc_move.requester [OF less.prems(1) step], where P = "only i"]
      by (auto simp: only_def)
  qed
qed

end
