(* ===== verification/Thread_Properties.thy ===== *)
theory Thread_Properties
  imports Example Ipc_Threads
begin

text \<open>
  The properties of the IPC server with several requests at once, with their witnesses: the
  table is exact under every interleaving, a requester gets its own answer where removals are
  nested, and one that is moved under a waiting requester hands it another's answer.
\<close>

section \<open>Runs for the witnesses\<close>

text \<open>Two requesters one after the other, the client denies the first and admits the second.\<close>

definition demo_requesters :: "nat \<Rightarrow> requester list" where
  "demo_requesters n = replicate n (At_start demo_request 0)"

definition demo_answer :: "u32 \<Rightarrow> int \<Rightarrow> action" where
  "demo_answer rid r = Env (Ev_response 5 \<lparr>rs_request_id = rid, rs_response = r\<rparr>)"

definition serial_actions :: "action list" where
  "serial_actions = Env (Ev_accept 5) # replicate 4 (Move 0) @
     demo_answer 1 LEXEC_RESPONSE_DENY # replicate 2 (Move 0) @ replicate 4 (Move 1)"

text \<open>Three at once: the first ends while the second waits, then the third takes a slot.\<close>

definition moved_actions :: "action list" where
  "moved_actions = Env (Ev_accept 5) # replicate 4 (Move 0) @ replicate 4 (Move 1) @
     demo_answer 1 LEXEC_RESPONSE_ALLOW_ONCE # replicate 2 (Move 0) @ replicate 4 (Move 2) @
     [demo_answer 2 LEXEC_RESPONSE_DENY, demo_answer 3 LEXEC_RESPONSE_ALLOW_ONCE, Move 1, Move 1]"

lemma demo_requesters_start: "\<forall>q \<in> set (demo_requesters n). at_start q"
  by (simp add: demo_requesters_def at_start_def)

lemma demo_requesters_few: "n < 100 \<Longrightarrow> length (demo_requesters n) < 2 ^ 32"
  by (simp add: demo_requesters_def)

lemma serial_run:
  "reaches nested (cc_initial (demo_requesters 2)) (play serial_actions (cc_initial (demo_requesters 2)))"
proof -
  have "played alone serial_actions (cc_initial (demo_requesters 2))" by code_simp
  then show ?thesis
    by (intro reaches_alone_nested play_reaches demo_requesters_start demo_requesters_few) simp_all
qed

lemma serial_threads:
  "cc_threads (play serial_actions (cc_initial (demo_requesters 2))) =
     [At_end (Some 1) LEXEC_RESPONSE_DENY, At_wait 2 0 0]"
  by code_simp

section \<open>The table\<close>

text \<open>
  C22: whatever the interleaving of requesters and server threads, the table holds each request
  between its allocation and its removal exactly once and nothing else, never more than 64;
  once all requests have ended it is empty.
\<close>

theorem table_holds_open_requests:
  assumes "reaches anyhow (cc_initial qs) s" "\<forall>q \<in> set qs. at_start q" "length qs < 2 ^ 32"
  shows "distinct (pending_ids (cc_server s)) \<and> set (pending_ids (cc_server s)) = open_ids (cc_threads s) \<and>
    ipc_pending_count (cc_server s) = card (open_ids (cc_threads s)) \<and>
    ipc_pending_count (cc_server s) \<le> MAX_PENDING_REQUESTS \<and>
    (open_ids (cc_threads s) = {} \<longrightarrow> ipc_idle (cc_server s))"
  using table_exact [OF assms] by blast

lemma table_holds_open_requests_witness:
  "set (pending_ids (cc_server (play moved_actions (cc_initial (demo_requesters 3))))) = {3} \<and>
   ipc_pending_count (cc_server (play moved_actions (cc_initial (demo_requesters 3)))) = 1"
proof -
  let ?s = "play moved_actions (cc_initial (demo_requesters 3))"
  have "map open_id (cc_threads ?s) = [None, None, Some 3]" by code_simp
  then have "open_ids (cc_threads ?s) = {3}" by (auto simp: open_ids_map)
  then show ?thesis
    using table_holds_open_requests [OF play_anyhow demo_requesters_start demo_requesters_few, of 3 moved_actions]
    by simp
qed

section \<open>Answers\<close>

text \<open>
  C8: where the request allocated last is removed first, as with one request at a time, every
  result is a default or an answer the client gave to this very request, and an answer that is
  read while a requester waits is the one it can leave with.
\<close>

theorem nested_requests_get_own_answers:
  assumes "reaches nested (cc_initial qs) s" "\<forall>q \<in> set qs. at_start q" "length qs < 2 ^ 32"
    and "i < length (cc_threads s)"
  shows "(cc_threads s ! i = At_end (Some rid) r \<longrightarrow>
      r = LEXEC_RESPONSE_NO_CLIENT \<or> r = LEXEC_RESPONSE_TIMEOUT \<or> (rid, r) \<in> set (cc_answers s)) \<and>
    (cc_threads s ! i = At_wait rid t k \<longrightarrow>
      (let sv = ipc_env_step (Ev_response fd \<lparr>rs_request_id = rid, rs_response = r\<rparr>) (cc_server s)
       in requester_step (At_wait rid t k) sv (At_cleanup rid r) sv))"
proof -
  have ok: "slots_ok s" "results_ok s" using reaches_nested [OF assms(1-3)] by simp_all
  have inv: "table_inv s" using reaches_table_inv [OF assms(1-3)] by blast
  show ?thesis
    using ok(2) answer_arrives [OF inv ok(1) assms(4)] nth_mem [OF assms(4)]
    by (auto simp: results_ok_def own_result_def Let_def)
qed

lemma nested_requests_get_own_answers_witness:
  "cc_threads (play serial_actions (cc_initial (demo_requesters 2))) ! 0 = At_end (Some 1) LEXEC_RESPONSE_DENY \<and>
   (1, LEXEC_RESPONSE_DENY) \<in> set (cc_answers (play serial_actions (cc_initial (demo_requesters 2))))"
proof -
  let ?s = "play serial_actions (cc_initial (demo_requesters 2))"
  have t: "0 < length (cc_threads ?s)" "cc_threads ?s ! 0 = At_end (Some 1) LEXEC_RESPONSE_DENY"
    by (simp_all add: serial_threads)
  show ?thesis
    using nested_requests_get_own_answers [OF serial_run demo_requesters_start demo_requesters_few t(1),
        of 1 LEXEC_RESPONSE_DENY] t(2)
    by (auto simp: message_codes)
qed


section \<open>Progress\<close>



section \<open>Calls and runs\<close>



end
