(* ===== verification/Messages.thy ===== *)
theory Messages
  imports Event_Loop
begin

text \<open>
  \<open>src/src/common/protocol.h\<close>: what the daemon writes to a client. The fields of
  \<open>lexec_exec_request_t\<close> are arrays of fixed size; \<open>request_typed\<close> says that the strings fit
  them, terminator included, and that hash and flag have the form the client expects. Every
  request along a run of the event loop is one.
\<close>

section \<open>Well-formed requests\<close>

definition LEXEC_MAX_PATH :: nat where "LEXEC_MAX_PATH = 4096"
definition LEXEC_HASH_SIZE :: nat where "LEXEC_HASH_SIZE = 64"

definition request_typed :: "exec_request \<Rightarrow> bool" where
  "request_typed rq \<longleftrightarrow>
     length (rq_path rq) < LEXEC_MAX_PATH \<and>
     length (rq_hash rq) < LEXEC_HASH_SIZE + 1 \<and>
     length (rq_cmdline rq) < LEXEC_MAX_PATH \<and>
     length (rq_parent_path rq) < LEXEC_MAX_PATH \<and>
     hex_key (rq_hash rq) \<and> (rq_is_shared_lib rq = 0 \<or> rq_is_shared_lib rq = 1)"

lemma request_typed_id [simp]: "request_typed (rq\<lparr>rq_request_id := rid\<rparr>) = request_typed rq"
  by (simp add: request_typed_def)

lemma hex_key_length: "hex_key h \<Longrightarrow> length h = 64"
  by (erule hex_keyE) simp

lemma build_request_typed:
  assumes "hex_key hash"
  shows "request_typed (build_request env path hash pid is_so)"
  using assms hex_key_length [OF assms]
  by (auto simp: request_typed_def build_request_def get_parent_path_def PATH_MAX_def SHA256_HEX_LENGTH_def
      LEXEC_MAX_PATH_def LEXEC_HASH_SIZE_def split: option.split)

section \<open>What one request writes\<close>

lemma wait_loop_sent: "wait_loop slot timed sv es = Ret (sv', rest) \<Longrightarrow> sv_sent sv' = sv_sent sv"
  by (induction es arbitrary: sv) (auto split: if_splits)

lemma take_request_id_sent: "take_request_id sv = (rid, sv') \<Longrightarrow> sv_sent sv' = sv_sent sv"
  by (auto simp: take_request_id_def)

lemma allocate_pending_sent: "allocate_pending rid sv = Some (slot, sv') \<Longrightarrow> sv_sent sv' = sv_sent sv"
  by (auto simp: allocate_pending_def split: if_splits)

definition writes :: "(int \<times> exec_request \<Rightarrow> bool) \<Rightarrow> ipc_server \<Rightarrow> ipc_server \<Rightarrow> bool" where
  "writes Q sv sv' \<longleftrightarrow> (\<exists>new. sv_sent sv' = sv_sent sv @ new \<and> list_all Q new)"

lemma writes_same: "sv_sent sv' = sv_sent sv \<Longrightarrow> writes Q sv sv'"
  by (auto simp: writes_def)

lemma writes_one: "sv_sent sv' = sv_sent sv @ [m] \<Longrightarrow> Q m \<Longrightarrow> writes Q sv sv'"
  by (auto simp: writes_def)

lemma writes_trans: "writes Q u v \<Longrightarrow> writes Q v w \<Longrightarrow> writes Q u w"
  by (fastforce simp: writes_def)

lemma request_writes:
  assumes "ipc_request_permission env req t sv = Ret (sv', x)"
    and Q: "\<And>fd rid. 0 \<le> fd \<Longrightarrow> Q (fd, req\<lparr>rq_request_id := rid\<rparr>)"
  shows "writes Q sv sv'"
proof (cases rule: request_cases [of sv env req t])
  case no_client
  then show ?thesis using assms(1) by (simp add: writes_same)
next
  case (full rid sv1)
  then show ?thesis using assms(1) take_request_id_sent by (fastforce intro: writes_same)
next
  case (slot rid sv1 k sv2)
  define sv3 where "sv3 = fold ipc_env_step (env_before_write env) sv2"
  have s3: "sv_sent sv3 = sv_sent sv"
    using take_request_id_sent [OF slot(2)] allocate_pending_sent [OF slot(3)] by (simp add: sv3_def)
  let ?sent = "sv3\<lparr>sv_sent := sv_sent sv3 @ [(sv_client_fd sv, req\<lparr>rq_request_id := rid\<rparr>)]\<rparr>"
  have "sv_sent sv' = sv_sent sv \<or> sv_sent sv' = sv_sent ?sent"
    using assms(1) s3 unfolding slot(4) request_tail_def sv3_def [symmetric]
    by (auto simp: bind_outcome_Ret_iff dest: wait_loop_sent split: if_splits)
  then show ?thesis
    using slot(1) s3 Q [of "sv_client_fd sv" rid] by (auto intro: writes_same writes_one)
qed

section \<open>What an event writes\<close>

lemma remember_ipc: "remember wo m hash path d = Ret d' \<Longrightarrow> mo_ipc d' = mo_ipc d"
  by (auto simp: remember_def Let_def bind_outcome_Ret_iff)

lemma judge_writes:
  assumes "judge wo ev env is_so path hash d = Ret d'"
    and Q: "\<And>fd rid. 0 \<le> fd \<Longrightarrow> Q (fd, (build_request env path hash (ev_pid ev) is_so)\<lparr>rq_request_id := rid\<rparr>)"
  shows "writes Q (mo_ipc d) (mo_ipc d')"
proof -
  have "mo_ipc d' = mo_ipc d \<or> (\<exists>dec. ask_user_permission (wo_config wo) env path hash (ev_pid ev) is_so (mo_ipc d) =
      Ret (mo_ipc d', dec))"
    using assms(1) unfolding judge_def Let_def
    by (auto simp: bind_outcome_Ret_iff split: if_splits prod.splits dest!: remember_ipc)
  then show ?thesis
  proof
    assume "mo_ipc d' = mo_ipc d"
    then show ?thesis by (simp add: writes_same)
  next
    assume "\<exists>dec. ask_user_permission (wo_config wo) env path hash (ev_pid ev) is_so (mo_ipc d) = Ret (mo_ipc d', dec)"
    then obtain x where "ipc_request_permission (en_gui env) (build_request env path hash (ev_pid ev) is_so)
        (daemon_get_gui_timeout (wo_config wo)) (mo_ipc d) = Ret (mo_ipc d', x)"
      by (auto simp: ask_user_permission_def bind_outcome_Ret_iff)
    then show ?thesis by (rule request_writes) (rule Q)
  qed
qed

text \<open>A connected client's descriptor and a request that fits.\<close>

definition well_sent :: "int \<times> exec_request \<Rightarrow> bool" where
  "well_sent m \<longleftrightarrow> 0 \<le> fst m \<and> request_typed (snd m)"

lemma handle_event_writes:
  assumes "handle_event wo ev env d = Ret d'"
    and Q: "\<And>fd rid path hash. 0 \<le> fd \<Longrightarrow> subject (asks_exec ev) wo env = Some (path, hash) \<Longrightarrow>
      Q (fd, (build_request env path hash (ev_pid ev) (\<not> asks_exec ev))\<lparr>rq_request_id := rid\<rparr>)"
  shows "writes Q (mo_ipc d) (mo_ipc d')"
proof -
  have start: "writes Q (mo_ipc d) (mo_ipc (met env d))" by (simp add: met_def writes_same)
  show ?thesis
  proof (cases "asks ev")
    case False
    then show ?thesis using assms(1) start by (auto simp: handle_event_handler)
  next
    case True
    then obtain d1 where d1: "handler (asks_exec ev) wo ev env (met env d) = Ret d1" "d' = close_event_fd ev d1"
      using assms(1) by (auto simp: handle_event_handler bind_outcome_Ret_iff)
    have "writes Q (mo_ipc (met env d)) (mo_ipc d1)"
    proof (cases "subject (asks_exec ev) wo env")
      case None
      then show ?thesis
        using d1(1) by (auto simp: handler_def handle_exec_judge handle_open_judge writes_same split: if_splits)
    next
      case (Some ph)
      obtain path hash where ph: "ph = (path, hash)" by fastforce
      have run: "judge wo ev env (\<not> asks_exec ev) path hash (met env d) = Ret d1"
        using d1(1) Some ph
        by (cases "asks_exec ev") (simp_all add: handler_def handle_exec_judge handle_open_judge)
      show ?thesis by (rule judge_writes [OF run]) (rule Q, simp_all add: Some ph)
    qed
    then show ?thesis using start d1(2) by (auto intro: writes_trans)
  qed
qed

text \<open>What holds of the request of every event holds of every message of the run.\<close>

lemma run_writes:
  assumes "mo_inv fed H tbl wo d" "run_events (handle_event wo) evs d = Ret d'"
    and Q: "\<And>ev env fd rid path hash. (ev, env) \<in> set evs \<Longrightarrow> 0 \<le> fd \<Longrightarrow>
      subject (asks_exec ev) wo env = Some (path, hash) \<Longrightarrow>
      Q (fd, (build_request env path hash (ev_pid ev) (\<not> asks_exec ev))\<lparr>rq_request_id := rid\<rparr>)"
  shows "writes Q (mo_ipc d) (mo_ipc d')"
  using assms(1,2)
proof (rule body.run_keeps [where R = "\<lambda>s s'. writes Q (mo_ipc s) (mo_ipc s')"])
  fix s ev env s'
  assume "(ev, env) \<in> set evs" "handle_event wo ev env s = Ret s'"
  then show "writes Q (mo_ipc s) (mo_ipc s')"
    using Q by (intro handle_event_writes) blast+
qed (auto intro: writes_same writes_trans)

lemma run_writes_well:
  assumes "mo_inv fed H tbl wo d" "run_events (handle_event wo) evs d = Ret d'"
  shows "writes well_sent (mo_ipc d) (mo_ipc d')"
proof -
  have sha: "sha256_spec (wo_sha wo) fed H" using assms(1) by (simp add: mo_inv_def)
  show ?thesis
    using assms
  proof (rule run_writes)
    fix ev env fd rid path hash
    assume "(0 :: int) \<le> fd" "subject (asks_exec ev) wo env = Some (path, hash)"
    then show "well_sent (fd, (build_request env path hash (ev_pid ev) (\<not> asks_exec ev))\<lparr>rq_request_id := rid\<rparr>)"
      using subject_key(2) [OF sha] by (auto simp: well_sent_def build_request_typed)
  qed
qed

end
