(* ===== verification/Wire.thy ===== *)
theory Wire
  imports Messages Gui
begin

unbundle bit_operations_syntax

text \<open>
  The bytes between daemon and client. Both sides write and read the structs of
  \<open>src/src/common/protocol.h\<close> as they lie in memory, without framing: \<open>write (fd, &req, sizeof req)\<close> and
  \<open>read (fd, &request, sizeof request)\<close> on a stream socket. The layout is that of the x86-64 ABI:
  members in order, integers of four bytes, little endian and aligned, arrays without padding, two
  bytes at the end of a request (cleared by the \<open>memset\<close> of \<open>ask_user_permission\<close>).
\<close>

section \<open>Streams of bytes\<close>

text \<open>What a sequence of reads gets of the bytes on a stream, where read \<open>i\<close> delivers \<open>ns ! i\<close> of them.\<close>

fun stream_reads :: "nat list \<Rightarrow> u8 list \<Rightarrow> u8 list list" where
  "stream_reads [] bs = []"
| "stream_reads (n # ns) bs = take n bs # stream_reads ns (drop n bs)"

section \<open>Fields of a struct\<close>

text \<open>A codec of fixed width: what a field holds of a value, and what is read from it.\<close>

locale field_codec =
  fixes width :: nat
    and put :: "'a \<Rightarrow> u8 list"
    and get :: "u8 list \<Rightarrow> 'a"
    and fits :: "'a \<Rightarrow> bool"
  assumes put_length: "fits x \<Longrightarrow> length (put x) = width"
    and get_put: "fits x \<Longrightarrow> get (put x) = x"
begin

text \<open>The values one after another are cut apart by reads of the width.\<close>

lemma take_put: "fits x \<Longrightarrow> take width (put x @ rest) = put x \<and> drop width (put x @ rest) = rest"
  using put_length [of x] by simp

lemma reads_back:
  "list_all fits xs \<Longrightarrow> stream_reads (replicate (length xs) width) (concat (map put xs)) = map put xs"
  by (induction xs) (simp_all add: put_length)

end

text \<open>\<open>uint32_t\<close>: the four bytes of the word, the lowest first.\<close>

definition put_u32 :: "u32 \<Rightarrow> u8 list" where
  "put_u32 w = [ucast w, ucast (drop_bit 8 w), ucast (drop_bit 16 w), ucast (drop_bit 24 w)]"

definition get_u32 :: "u8 list \<Rightarrow> u32" where
  "get_u32 bs = ucast (bs ! 0) OR push_bit 8 (ucast (bs ! 1)) OR push_bit 16 (ucast (bs ! 2)) OR
     push_bit 24 (ucast (bs ! 3))"

text \<open>\<open>int\<close>, \<open>pid_t\<close> and the enumerations: two's complement.\<close>

definition put_i32 :: "int \<Rightarrow> u8 list" where
  "put_i32 i = put_u32 (word_of_int i)"

definition get_i32 :: "u8 list \<Rightarrow> int" where
  "get_i32 bs = sint (get_u32 bs)"

definition i32 :: "int \<Rightarrow> bool" where
  "i32 i \<longleftrightarrow> - (2 ^ 31) \<le> i \<and> i < 2 ^ 31"

text \<open>A \<open>char\<close> array of \<open>n\<close> that was cleared before the string was copied into it.\<close>

definition put_chars :: "nat \<Rightarrow> string \<Rightarrow> u8 list" where
  "put_chars n s = map (\<lambda>c. word_of_nat (of_char c)) s @ replicate (n - length s) 0"

definition get_chars :: "u8 list \<Rightarrow> string" where
  "get_chars bs = map (\<lambda>b. char_of (unat b)) (takeWhile (\<lambda>b. b \<noteq> 0) bs)"

definition c_text :: "string \<Rightarrow> bool" where
  "c_text s \<longleftrightarrow> list_all (\<lambda>c. c \<noteq> CHR 0x00) s"

lemma put_u32_length [simp]: "length (put_u32 w) = 4" "length (put_i32 i) = 4"
  by (simp_all add: put_u32_def put_i32_def)

lemma get_put_u32 [simp]: "get_u32 (put_u32 w) = w"
proof (rule bit_word_eqI)
  fix n
  assume n: "n < LENGTH(32)"
  have "bit (get_u32 (put_u32 w)) n \<longleftrightarrow> n < 8 \<and> bit w n \<or> 8 \<le> n \<and> n < 16 \<and> bit w n \<or>
      16 \<le> n \<and> n < 24 \<and> bit w n \<or> 24 \<le> n \<and> n < 32 \<and> bit w n"
    using n by (auto simp: get_u32_def put_u32_def bit_or_iff bit_push_bit_iff bit_ucast_iff bit_drop_bit_eq
        simp del: push_bit_numeral)
  then show "bit (get_u32 (put_u32 w)) n = bit w n" using n by auto
qed

lemma get_put_i32: "i32 i \<Longrightarrow> get_i32 (put_i32 i) = i"
  by (simp add: get_i32_def put_i32_def i32_def signed_of_int signed_take_bit_int_eq_self)

lemma put_chars_length: "length s \<le> n \<Longrightarrow> length (put_chars n s) = n"
  by (simp add: put_chars_def)

lemma char_byte: "char_of (unat (word_of_nat (of_char c) :: u8)) = c"
  by (simp add: unat_of_nat)

lemma byte_zero: "word_of_nat (of_char c) = (0 :: u8) \<Longrightarrow> c = CHR 0x00"
proof -
  assume z: "word_of_nat (of_char c) = (0 :: u8)"
  have "c = char_of (unat (0 :: u8))" using char_byte [of c] unfolding z by (rule sym)
  then show "c = CHR 0x00" by (simp add: char_of_def)
qed

lemma get_put_chars:
  assumes "c_text s" "length s < n"
  shows "get_chars (put_chars n s) = s"
proof -
  let ?bs = "map (\<lambda>c. word_of_nat (of_char c) :: u8) s"
  have "takeWhile (\<lambda>b. b \<noteq> 0) (?bs @ replicate (n - length s) 0) = ?bs @ takeWhile (\<lambda>b. b \<noteq> 0) (replicate (n - length s) 0)"
    using assms(1) byte_zero by (intro takeWhile_append2) (auto simp: c_text_def list_all_iff)
  also have "takeWhile (\<lambda>b. b \<noteq> 0) (replicate (n - length s) (0 :: u8)) = []"
    by (cases "n - length s") simp_all
  finally show ?thesis by (simp add: get_chars_def put_chars_def char_byte map_idI comp_def)
qed

interpretation uint32: field_codec 4 put_u32 get_u32 "\<lambda>_. True"
  by unfold_locales simp_all

interpretation sint32: field_codec 4 put_i32 get_i32 i32
  by unfold_locales (simp_all add: get_put_i32)

interpretation chars: field_codec n "put_chars n" get_chars "\<lambda>s. c_text s \<and> length s < n" for n
  by unfold_locales (simp_all add: put_chars_length get_put_chars)

section \<open>The structs\<close>

definition field :: "nat \<Rightarrow> nat \<Rightarrow> u8 list \<Rightarrow> u8 list" where
  "field off width bs = take width (drop off bs)"

definition REQUEST_SIZE :: nat where "REQUEST_SIZE = 12368"
definition RESPONSE_SIZE :: nat where "RESPONSE_SIZE = 8"

definition put_request :: "exec_request \<Rightarrow> u8 list" where
  "put_request rq =
     put_u32 (rq_request_id rq) @ put_i32 (rq_pid rq) @ put_u32 (rq_uid rq) @
     put_chars LEXEC_MAX_PATH (rq_path rq) @ put_chars (LEXEC_HASH_SIZE + 1) (rq_hash rq) @
     put_chars LEXEC_MAX_PATH (rq_cmdline rq) @ put_chars LEXEC_MAX_PATH (rq_parent_path rq) @
     [rq_is_shared_lib rq] @ [0, 0]"

definition get_request :: "u8 list \<Rightarrow> exec_request" where
  "get_request bs =
     \<lparr>rq_request_id = get_u32 (field 0 4 bs), rq_pid = get_i32 (field 4 4 bs), rq_uid = get_u32 (field 8 4 bs),
      rq_path = get_chars (field 12 LEXEC_MAX_PATH bs), rq_hash = get_chars (field 4108 (LEXEC_HASH_SIZE + 1) bs),
      rq_cmdline = get_chars (field 4173 LEXEC_MAX_PATH bs), rq_parent_path = get_chars (field 8269 LEXEC_MAX_PATH bs),
      rq_is_shared_lib = bs ! 12365\<rparr>"

definition put_response :: "exec_response \<Rightarrow> u8 list" where
  "put_response rs = put_u32 (rs_request_id rs) @ put_i32 (rs_response rs)"

definition get_response :: "u8 list \<Rightarrow> exec_response" where
  "get_response bs = \<lparr>rs_request_id = get_u32 (field 0 4 bs), rs_response = get_i32 (field 4 4 bs)\<rparr>"

text \<open>What a request must be for its bytes to say it.\<close>

definition request_fits :: "exec_request \<Rightarrow> bool" where
  "request_fits rq \<longleftrightarrow> request_typed rq \<and> i32 (rq_pid rq) \<and> c_text (rq_path rq) \<and>
     c_text (rq_cmdline rq) \<and> c_text (rq_parent_path rq)"

lemma hex_key_text: "hex_key h \<Longrightarrow> c_text h"
  using bytes_to_hex_digits by (fastforce simp: hex_key_def c_text_def list_all_iff hex_chars_def)

lemma put_request_length: "request_fits rq \<Longrightarrow> length (put_request rq) = REQUEST_SIZE"
  by (simp add: request_fits_def request_typed_def put_request_def put_chars_length REQUEST_SIZE_def
      LEXEC_MAX_PATH_def LEXEC_HASH_SIZE_def)

lemma get_put_request:
  assumes "request_fits rq"
  shows "get_request (put_request rq) = rq"
proof -
  define p h c q where "p = put_chars LEXEC_MAX_PATH (rq_path rq)"
    and "h = put_chars (LEXEC_HASH_SIZE + 1) (rq_hash rq)" and "c = put_chars LEXEC_MAX_PATH (rq_cmdline rq)"
    and "q = put_chars LEXEC_MAX_PATH (rq_parent_path rq)"
  note defs = this
  have len: "length p = 4096" "length h = 65" "length c = 4096" "length q = 4096"
    using assms by (simp_all add: request_fits_def request_typed_def put_chars_length defs
        LEXEC_MAX_PATH_def LEXEC_HASH_SIZE_def)
  have get: "get_chars p = rq_path rq" "get_chars h = rq_hash rq" "get_chars c = rq_cmdline rq"
    "get_chars q = rq_parent_path rq" "get_i32 (put_i32 (rq_pid rq)) = rq_pid rq"
    using assms hex_key_text
    by (simp_all add: request_fits_def request_typed_def get_put_chars get_put_i32 defs)
  have bs: "put_request rq = put_u32 (rq_request_id rq) @ put_i32 (rq_pid rq) @ put_u32 (rq_uid rq) @
      p @ h @ c @ q @ [rq_is_shared_lib rq] @ [0, 0]"
    by (simp add: put_request_def defs)
  show ?thesis
    by (simp add: get_request_def bs field_def nth_append len get LEXEC_MAX_PATH_def LEXEC_HASH_SIZE_def)
qed

lemma get_put_response: "i32 (rs_response rs) \<Longrightarrow> get_response (put_response rs) = rs"
  by (simp add: get_response_def put_response_def field_def get_put_i32)

lemma put_response_length [simp]: "length (put_response rs) = RESPONSE_SIZE"
  by (simp add: put_response_def RESPONSE_SIZE_def)

interpretation requests: field_codec REQUEST_SIZE put_request get_request request_fits
  by unfold_locales (simp_all add: put_request_length get_put_request)

interpretation responses: field_codec RESPONSE_SIZE put_response get_response "\<lambda>rs. i32 (rs_response rs)"
  by unfold_locales (simp_all add: get_put_response)

section \<open>Reading\<close>

text \<open>
  The client's \<open>read (g_app.daemon_socket, &request, sizeof (request))\<close>, and the daemon's
  \<open>read (client_fd, &response, sizeof (response))\<close>; \<open>None\<close> is a failure.
\<close>

definition read_request :: "u8 list option \<Rightarrow> request_read" where
  "read_request r =
     (case r of None \<Rightarrow> Rq_failed
      | Some bs \<Rightarrow> if length bs = REQUEST_SIZE then Rq_whole (get_request bs)
                   else if length bs = 0 then Rq_closed else Rq_partial)"

definition read_response :: "int \<Rightarrow> u8 list option \<Rightarrow> ipc_event" where
  "read_response client_fd r =
     (case r of None \<Rightarrow> Ev_hangup client_fd
      | Some bs \<Rightarrow> if length bs = 0 then Ev_hangup client_fd
                   else if length bs = RESPONSE_SIZE then Ev_response client_fd (get_response bs)
                   else Ev_short_read client_fd)"

lemma read_put_request: "request_fits rq \<Longrightarrow> read_request (Some (put_request rq)) = Rq_whole rq"
  by (simp add: read_request_def get_put_request put_request_length)

lemma read_put_response:
  "i32 (rs_response rs) \<Longrightarrow> read_response fd (Some (put_response rs)) = Ev_response fd rs"
  by (simp add: read_response_def get_put_response) (simp add: RESPONSE_SIZE_def)

lemma read_requests:
  assumes "list_all request_fits rqs"
  shows "map (read_request \<circ> Some) (stream_reads (replicate (length rqs) REQUEST_SIZE) (concat (map put_request rqs))) =
    map Rq_whole rqs"
  using assms unfolding requests.reads_back [OF assms] by (simp add: list_all_iff read_put_request)

text \<open>
  A stream socket may deliver less than was asked for. The client drops what it got and takes the
  rest for the start of the next request: after a read of four bytes, the process id for the number
  of the request.
\<close>

lemma short_read_shifts:
  assumes "request_fits r1" "request_fits r2"
  shows "\<exists>rq. map (read_request \<circ> Some) (stream_reads [4, REQUEST_SIZE] (put_request r1 @ put_request r2)) =
    [Rq_partial, Rq_whole rq] \<and> rq_request_id rq = word_of_int (rq_pid r1)"
proof -
  define rest where "rest = put_u32 (rq_uid r1) @ put_chars LEXEC_MAX_PATH (rq_path r1) @
      put_chars (LEXEC_HASH_SIZE + 1) (rq_hash r1) @ put_chars LEXEC_MAX_PATH (rq_cmdline r1) @
      put_chars LEXEC_MAX_PATH (rq_parent_path r1) @ [rq_is_shared_lib r1] @ [0, 0]"
  have r1: "put_request r1 = put_u32 (rq_request_id r1) @ put_u32 (word_of_int (rq_pid r1)) @ rest"
    by (simp add: put_request_def put_i32_def rest_def)
  have len: "length (put_request r1 @ put_request r2) = 24736"
    using put_request_length assms by (simp add: REQUEST_SIZE_def)
  let ?bs = "take REQUEST_SIZE (drop 4 (put_request r1 @ put_request r2))"
  have "length ?bs = REQUEST_SIZE" using len by (simp add: REQUEST_SIZE_def)
  moreover have "get_u32 (field 0 4 ?bs) = word_of_int (rq_pid r1)"
    by (simp add: r1 field_def REQUEST_SIZE_def)
  moreover have "read_request (Some (take 4 (put_request r1 @ put_request r2))) = Rq_partial"
    by (simp add: read_request_def r1 REQUEST_SIZE_def)
  ultimately show ?thesis by (simp add: read_request_def get_request_def)
qed

section \<open>From the kernel to the dialog and back\<close>

text \<open>Names from the kernel have no NUL, and process ids are a \<open>pid_t\<close>.\<close>

definition plain_event :: "fan_event \<times> event_env \<Rightarrow> bool" where
  "plain_event x \<longleftrightarrow> i32 (ev_pid (fst x)) \<and> (\<forall>p. en_target (snd x) = Some p \<longrightarrow> c_text p) \<and>
     (\<forall>p. en_exe (snd x) = Some p \<longrightarrow> c_text p)"

lemma c_text_take: "c_text s \<Longrightarrow> c_text (take n s)"
  by (auto simp: c_text_def list_all_iff dest: in_set_takeD)

lemma build_request_fits:
  assumes "sha256_spec (wo_sha wo) fed H" "subject is_exec wo env = Some (path, hash)" "plain_event (ev, env)"
  shows "request_fits ((build_request env path hash (ev_pid ev) is_so)\<lparr>rq_request_id := rid\<rparr>)"
proof -
  let ?b = "build_request env path hash (ev_pid ev) is_so"
  have typed: "request_typed ?b" using subject_key(2) [OF assms(1,2)] by (rule build_request_typed)
  have "c_text path"
    using subject_key(3) [OF assms(1,2)] assms(3) by (auto simp: plain_event_def intro: c_text_take)
  then have "rq_pid ?b = ev_pid ev" "c_text (rq_path ?b)" "c_text (rq_cmdline ?b)"
    by (simp_all add: build_request_def c_text_take) (simp add: c_text_def)
  moreover have "c_text (fst (get_parent_path env PATH_MAX))"
    using assms(3) c_text_take by (cases "en_exe env") (auto simp: get_parent_path_def plain_event_def c_text_def)
  then have "c_text (rq_parent_path ?b)" by (simp add: build_request_def)
  ultimately show ?thesis using typed assms(3) by (simp add: request_fits_def plain_event_def)
qed

lemma run_writes_fitting:
  assumes "mo_inv fed H tbl wo d" "run_events (handle_event wo) evs d = Ret d'" "list_all plain_event evs"
  shows "writes (\<lambda>m. request_fits (snd m)) (mo_ipc d) (mo_ipc d')"
proof -
  have sha: "sha256_spec (wo_sha wo) fed H" using assms(1) by (simp add: mo_inv_def)
  show ?thesis
    using assms(1,2)
  proof (rule run_writes)
    fix ev env fd rid path hash
    assume "(ev, env) \<in> set evs" "subject (asks_exec ev) wo env = Some (path, hash)"
    then show "request_fits (snd (fd :: int, (build_request env path hash (ev_pid ev) (\<not> asks_exec ev))\<lparr>rq_request_id := rid\<rparr>))"
      using build_request_fits [OF sha] assms(3) by (auto simp: list_all_iff)
  qed
qed

end
