(* ===== verification/Wire_Properties.thy ===== *)
theory Wire_Properties
  imports Example Wire
begin

text \<open>
  Properties of what passes between daemon and client as bytes: the requests of a run, a click on
  its way back, and what a short read does to the stream.
\<close>

text \<open>
  C20: the bytes of all messages that a run of the loop writes, one after another on the stream and
  read in whole structs, are for the client exactly the requests of that run, in order and with
  every field, where the kernel's names are C strings.
\<close>

theorem requests_read_back:
  assumes "mo_inv fed H tbl wo d" "g_running d" "list_all plain_event (loop_events xs)"
    and "fanotify_event_loop wo xs d = Ret r"
  shows "\<exists>new. sv_sent (mo_ipc (final_state r)) = sv_sent (mo_ipc d) @ new \<and>
    map (read_request \<circ> Some)
      (stream_reads (replicate (length new) REQUEST_SIZE) (concat (map (put_request \<circ> snd) new))) =
    map (Rq_whole \<circ> snd) new"
proof -
  obtain d' where d': "run_events (handle_event wo) (loop_events xs) d = Ret d'" "r = loop_end xs d'"
    using assms(1,2,4) by (rule loop_returns)
  have same: "mo_ipc (final_state r) = mo_ipc d'"
    using loop_end_final [of xs d'] d'(2) by (auto simp: fanotify_stop_def)
  obtain new where new: "sv_sent (mo_ipc d') = sv_sent (mo_ipc d) @ new" "list_all (\<lambda>m. request_fits (snd m)) new"
    using run_writes_fitting [OF assms(1) d'(1) assms(3)] by (auto simp: writes_def)
  then have "list_all request_fits (map snd new)" by (simp add: list_all_iff)
  from read_requests [OF this] new(1) same show ?thesis by (intro exI [of _ new]) (simp add: comp_def)
qed

lemma requests_read_back_witness:
  "\<exists>r new. fanotify_event_loop (demo_world default_config)
      [In_events [(demo_event, demo_env (reply_gui LEXEC_RESPONSE_DENY))]] (demo_monitor demo_client) = Ret r \<and>
    sv_sent (mo_ipc (final_state r)) = new \<and>
    map (read_request \<circ> Some)
      (stream_reads (replicate (length new) REQUEST_SIZE) (concat (map (put_request \<circ> snd) new))) =
    map (Rq_whole \<circ> snd) new"
proof -
  let ?wo = "demo_world default_config" and ?d = "demo_monitor demo_client" and ?gui = "reply_gui LEXEC_RESPONSE_DENY"
  let ?xs = "[In_events [(demo_event, demo_env ?gui)]]"
  have inv: "mo_inv (\<lambda>c. c) pad_digest map_of ?wo ?d" by (rule demo_inv [OF demo_idle(2)])
  have "ruling default_config False (answer default_config (demo_env ?gui) demo_client) = Ret (Deny, False)"
    by (simp add: ruling_def demo_answers demo_decisions demo_not_learning)
  then obtain d' where "handle_event ?wo demo_event (demo_env ?gui) ?d = Ret d'"
    using demo_handled [OF refl demo_idle(2)] by blast
  then obtain r where r: "fanotify_event_loop ?wo ?xs ?d = Ret r"
    using loop_run [OF inv demo_fields(7), of ?xs] by (simp add: demo_batch del: accepted.simps)
  have "plain_event (demo_event, demo_env ?gui)"
    by (simp add: plain_event_def demo_event_def demo_env_def i32_def c_text_def)
  then have plain: "list_all plain_event (loop_events ?xs)" by (simp add: demo_batch del: accepted.simps)
  have "sv_sent (mo_ipc ?d) = []"
    by (simp add: demo_fields demo_client_def accept_client_def ipc_initial_def)
  with requests_read_back [OF inv demo_fields(7) plain r] show ?thesis using r by auto
qed

definition demo_shown :: exec_request where
  "demo_shown = (build_request (demo_env quiet_gui) ''/opt/tool'' (bytes_to_hex (replicate 32 0)) 42 False)\<lparr>rq_request_id := 8\<rparr>"

lemma demo_shown_fits: "request_fits demo_shown"
proof -
  have "hex_key (bytes_to_hex (replicate 32 0))" unfolding hex_key_def by (intro exI conjI) simp_all
  then have "request_typed demo_shown" by (simp add: demo_shown_def build_request_typed)
  then show ?thesis
    by (simp add: request_fits_def demo_shown_def build_request_def get_parent_path_def demo_env_def
        i32_def c_text_def PATH_MAX_def)
qed

lemma demo_shown_fields: "rq_request_id demo_shown = 8" "rq_pid demo_shown = 42"
  by (simp_all add: demo_shown_def build_request_def)

text \<open>
  C21: a request that arrives as bytes, is shown and is clicked on comes back as bytes in which the
  daemon's reader finds the number of that request and the code of the button; the dialog is gone
  and the others are as before.
\<close>

theorem click_reaches_its_request:
  assumes "request_fits rq" "gu_connected g" "w \<in> fst ` set (gu_watches g)"
    and "g1 = gui_step (Gev_socket w False True (read_request (Some (put_request rq)))) g"
  shows "\<exists>rs. gu_sent (gui_step (Gev_dialog True (length (gu_dialogs g)) b) g1) = gu_sent g @ [(gu_socket g, rs)] \<and>
    gu_dialogs (gui_step (Gev_dialog True (length (gu_dialogs g)) b) g1) = gu_dialogs g \<and>
    ipc_env_step (read_response fd (Some (put_response rs))) sv = reader_response rs sv \<and>
    rs_request_id rs = rq_request_id rq \<and>
    rs_response rs = (if b = 1 then MSG_ALLOW_ONCE else if b = 2 then MSG_ALLOW_ALWAYS else MSG_DENY)"
proof -
  have shown: "g1 = show_permission_dialog rq g"
    using assms(3,4) by (simp add: read_put_request [OF assms(1)] on_socket_readable_def)
  obtain dl where g1: "g1 = g\<lparr>gu_dialogs := gu_dialogs g @ [dl]\<rparr>" and dl: "dl_request dl = rq_request_id rq"
    unfolding shown by (rule dialog_shown [of rq g])
  let ?c = "if b = 1 then MSG_ALLOW_ONCE else if b = 2 then MSG_ALLOW_ALWAYS else MSG_DENY"
  let ?rs = "\<lparr>rs_request_id = rq_request_id rq, rs_response = ?c\<rparr>"
  have "i32 (rs_response ?rs)" by (simp add: i32_def message_codes)
  then have read: "read_response fd (Some (put_response ?rs)) = Ev_response fd ?rs" by (rule read_put_response)
  have "gu_sent (gui_step (Gev_dialog True (length (gu_dialogs g)) b) g1) = gu_sent g @ [(gu_socket g, ?rs)] \<and>
    gu_dialogs (gui_step (Gev_dialog True (length (gu_dialogs g)) b) g1) = gu_dialogs g"
    using assms(2) by (simp add: g1 dl on_dialog_response_def send_response_def)
  then show ?thesis using read by (intro exI [of _ ?rs]) simp
qed

lemma click_reaches_its_request_witness:
  "\<exists>g1 rs. g1 = gui_run [Gev_activate \<lparr>at_socket = 5, at_connect = True, at_watch = 1\<rparr>,
      Gev_socket 1 False True (read_request (Some (put_request demo_shown)))] gui_initial \<and>
    gu_sent (gui_step (Gev_dialog True 0 3) g1) = [(5, rs)] \<and>
    rs_request_id rs = 8 \<and> rs_response rs = MSG_DENY"
proof -
  let ?a = "Gev_activate \<lparr>at_socket = 5, at_connect = True, at_watch = 1\<rparr>"
  define g where "g = gui_run [?a] gui_initial"
  have f: "gu_connected g" "1 \<in> fst ` set (gu_watches g)" "gu_dialogs g = []" "gu_sent g = []" "gu_socket g = 5"
    by (simp_all add: g_def gui_run_def gui_defs gui_initial_def Let_def)
  have run: "gui_run [?a, Gev_socket 1 False True (read_request (Some (put_request demo_shown)))] gui_initial =
      gui_step (Gev_socket 1 False True (read_request (Some (put_request demo_shown)))) g"
    by (simp add: g_def gui_run_def del: gui_step.simps)
  show ?thesis
    unfolding run using click_reaches_its_request [OF demo_shown_fits f(1,2) refl, of 3] f(3-5) demo_shown_fields
    by (auto simp del: gui_step.simps)
qed



end
