(* ===== verification/Spec2Isabelle.thy ===== *)
theory Spec2Isabelle
  imports Component_Properties Thread_Properties Wire_Properties
begin

text \<open>
  A verification development for the Linux Anti-Executable: a root daemon that answers the
  kernel's permission events from a whitelist of SHA-256 digests (\<open>src/src/daemon\<close>,
  \<open>src/src/common\<close>) and a client in the user's session that is asked about unknown programs
  (\<open>src/src/gui\<close>).

  \<^bold>\<open>The program.\<close> \<open>main.c\<close> reads the configuration, starts the components in order and runs
  \<open>fanotify_event_loop\<close>. For each event a handler resolves the path, applies the exclusion
  list, tests for ELF (and, for an open, for a library name), hashes the file, and looks the
  digest up in the in-memory cache and then in the SQLite whitelist. An unknown digest is
  recorded in learning mode; otherwise the IPC server sends a request to the client and waits
  for the answer or the timeout. The answer goes back to the kernel.

  \<^bold>\<open>Theories and sources.\<close>
  \<^item> \<open>Lexec_Prelude\<close>: outcomes (return, wait for ever, undefined behaviour of C), the C library's
    string functions, open file descriptions whose reads may be short or fail.
  \<^item> \<open>Hash\<close>: \<open>common/hash.c\<close>. OpenSSL is the parameter \<open>sha256_api\<close>; \<open>sha256_spec\<close> is its promise.
  \<^item> \<open>Digest_Store\<close>: the interfaces (locales) of a set of digests, of one that never misses and of
    two levels of them; interpreted in \<open>Whitelist\<close>, \<open>Cache\<close> and \<open>Policy\<close>.
  \<^item> \<open>Whitelist\<close>, \<open>Scan\<close>: \<open>daemon/whitelist.c\<close>. SQLite is the parameter \<open>sqlite\<close>, called with the very
    statements of the source; \<open>sqlite_spec\<close> says what these do to the table. The file system is
    the parameter \<open>os\<close>.
  \<^item> \<open>Cache\<close>: \<open>daemon/whitelist_cache.c\<close>, hash table, bloom filter and counters at their width; the
    invariant \<open>cache_wf\<close> and the abstraction \<open>cache_members\<close>.
  \<^item> \<open>Config\<close>: the configuration half of \<open>daemon/main.c\<close> with the initial scan.
  \<^item> \<open>Ipc\<close>: \<open>common/protocol.h\<close> and \<open>daemon/ipc_server.c\<close>. What the accept and reader threads do
    during a request is a list of \<open>ipc_event\<close>s, in any order.
  \<^item> \<open>Ipc_Threads\<close>: \<open>ipc_request_permission\<close> as a step relation, one step for each region under a lock
    and each system call, for any number of requesters beside the accept and reader threads. What
    the table holds and whose answer a requester gets is proved over every reachable state; the
    function of \<open>Ipc\<close> is one such run. \<open>Thread_Properties\<close>: the properties.
  \<^item> \<open>Fanotify\<close>: \<open>daemon/fanotify_handler.c\<close>, both handlers in full and the loop over a script of reads.
  \<^item> \<open>Policy\<close>: the abstract policy (\<open>subject\<close>, \<open>ruling\<close>) and the refinement \<open>handle_event_spec\<close>: a
    handler answers as the policy rules and changes the two stores only as \<open>handled\<close> says.
  \<^item> \<open>Event_Loop\<close>: the contract \<open>event_step\<close> of a handler, interpreted on both handlers and on the
    loop's body, and the reduction of the loops to a run over the accepted events.
  \<^item> \<open>Daemon_Main\<close>: the other half of \<open>daemon/main.c\<close>: signals, directories, \<open>daemonize\<close>, \<open>main\<close>.
  \<^item> \<open>Restart\<close>: one daemon after another on the same database file.
  \<^item> \<open>Widgets\<close>, \<open>Gui\<close>: \<open>gui/main.c\<close>: \<open>g_app\<close>, the widgets of dialog and main window as values, the
    callbacks, the main loop's dispatch, \<open>main\<close>.
  \<^item> \<open>Messages\<close>, \<open>Wire\<close>: what the daemon writes along a run; the bytes of the structs of
    \<open>common/protocol.h\<close>, by instances of the locale \<open>field_codec\<close>, with the reads of both sides.
    \<open>Wire_Properties\<close>: the properties.
  \<^item> \<open>Example\<close>: a concrete daemon for the witnesses. \<open>Component_Properties\<close> and this theory: the
    properties, each with the number under which it is listed.

  \<^bold>\<open>State.\<close> The globals of a C file are a record: \<open>g_cache\<close> is \<open>cache\<close>, \<open>g_config\<close> is \<open>config\<close>, \<open>g_server\<close>
  and \<open>g_pending\<close> are \<open>ipc_server\<close>, the globals of \<open>fanotify_handler.c\<close> with those it reaches are
  \<open>monitor\<close>, \<open>g_app\<close> is \<open>gui\<close>. Functions take the record and return it updated, beside the C result.
  The answers written to the kernel, the descriptors closed and the messages sent are kept in
  lists. Errors of the system calls are inputs: every early return of the source is a branch.

  \<^bold>\<open>Bounds and fuel.\<close> Only \<open>whitelist_scan_directory\<close> takes fuel, the depth of nested calls: 4095 is
  enough wherever directories have paths of less than 4094 bytes (\<open>scan_terminates\<close>), and at 4095
  bytes no fuel is. Every other loop is a total function: reading, tokenising and parsing by the
  length of what is left; the event loop and the client by the list of their inputs. Waiting for
  ever is the outcome \<open>Blocked\<close>. Counters wrap as the words they are; \<open>atoi (v) * 1000\<close> outside
  \<open>int\<close> is \<open>Undef\<close>.

  \<^bold>\<open>Assumptions.\<close> \<open>sha256_spec\<close> and \<open>sqlite_spec\<close> are documented behaviour of the two libraries;
  \<open>sqlite_never_fails\<close> is assumed only where a property says that the database works. Both are
  shown to be satisfiable by \<open>pad_api\<close> and \<open>ref_sqlite\<close>. A region under a lock is atomic. The daemon
  has one requester, so that in its event loop one slot of the request table is in use at a time;
  \<open>Ipc_Threads\<close> does without that. The structs have the x86-64 layout. A database file that is opened
  again has the rows it was left with (\<open>reopen\<close>, \<open>spec_create\<close>).

  \<^bold>\<open>Not modelled.\<close> Messages to terminal and syslog, the texts of \<open>print_usage\<close> and \<open>print_config\<close>
  among them; how GTK draws the widgets; the decoding of the argument vector by \<open>getopt_long\<close>;
  \<open>lexec_status_t\<close> and \<open>lexec_whitelist_entry_t\<close> of \<open>protocol.h\<close>, which nothing uses; scripts,
  packaging, SQL schema.
\<close>

section \<open>The event loop and the policy\<close>

text \<open>
  C1: every permission event of the accepted buffers whose answer can be written gets exactly
  one answer, in the order of the events, until the loop is stopped.
\<close>

theorem loop_answers_each_event:
  assumes "mo_inv fed H tbl wo d" "g_running d" "fanotify_event_loop wo xs d = Ret r"
  shows "\<exists>new. mo_answers (final_state r) = mo_answers d @ new \<and>
    map fst new = map (\<lambda>(ev, env). ev_fd ev) (filter (\<lambda>(ev, env). asks ev \<and> en_write_ok env) (loop_events xs))"
proof -
  obtain d' where d': "run_events (handle_event wo) (loop_events xs) d = Ret d'" "r = loop_end xs d'"
    using assms by (rule loop_returns)
  have "mo_answers (final_state r) = mo_answers d'"
    using loop_end_final [of xs d'] d'(2) by auto
  then show ?thesis using body.run_answers [OF assms(1) d'(1)] by simp
qed

lemma loop_answers_each_event_witness:
  "\<exists>r. fanotify_event_loop (demo_world default_config)
      [In_again, In_events [(demo_event, demo_env quiet_gui)], In_stop] (demo_monitor ipc_initial) = Ret r \<and>
    map fst (mo_answers (final_state r)) = [7]"
proof -
  let ?wo = "demo_world default_config" and ?d = "demo_monitor ipc_initial"
  let ?xs = "[In_again, In_events [(demo_event, demo_env quiet_gui)], In_stop]"
  have inv: "mo_inv (\<lambda>c. c) pad_digest map_of ?wo ?d" by (rule demo_inv [OF demo_idle(1)])
  have run: "g_running ?d" by (simp add: demo_monitor_def)
  have ev: "loop_events ?xs = [(demo_event, demo_env quiet_gui)]" by (simp add: demo_batch del: accepted.simps)
  have "ruling default_config False (answer default_config (demo_env quiet_gui) ipc_initial) = Ret (Deny, False)"
    by (simp add: ruling_def demo_answers demo_decisions demo_not_learning)
  then obtain d' where "handle_event ?wo demo_event (demo_env quiet_gui) ?d = Ret d'"
    using demo_handled [OF refl demo_idle(1)] by blast
  then obtain r where r: "fanotify_event_loop ?wo ?xs ?d = Ret r"
    using loop_run [OF inv run, of ?xs] ev by simp
  from loop_answers_each_event [OF inv run r] obtain new where
    "mo_answers (final_state r) = mo_answers ?d @ new" "map fst new = [7]"
    unfolding ev by (auto simp: demo_asks demo_fields)
  then show ?thesis using r by (simp add: demo_fields)
qed

text \<open>
  C2: with a working database, an event is denied exactly when it is judged (resolvable path,
  not excluded, an ELF file, a library name for an open), its digest is neither cached nor
  listed, learning is off, and the user's answer or the default says no.
\<close>

theorem denied_exactly:
  assumes "mo_inv fed H tbl wo d" "mo_reliable wo d" "asks ev" "en_write_ok env"
    and "handle_event wo ev env d = Ret d'"
  shows "\<exists>v. mo_answers d' = mo_answers d @ [(ev_fd ev, v)] \<and>
    (v = Deny \<longleftrightarrow> (\<exists>path hash r. subject (asks_exec ev) wo env = Some (path, hash) \<and>
       hash \<notin> mo_cached d \<union> mo_listed tbl d \<and> \<not> daemon_is_learning_mode (wo_config wo) \<and>
       answer (wo_config wo) env (mo_ipc (met env d)) = Ret r \<and> decision_of (wo_config wo) r < 0))"
proof -
  obtain v keep where r: "event_ruling wo ev env d = Ret (v, keep)"
    and h: "handled tbl wo ev env v keep d d'"
    using assms(1,5) by (rule handle_event_ruled)
  have "v = Deny \<longleftrightarrow> (\<exists>keep. event_ruling wo ev env d = Ret (Deny, keep))" using r by auto
  then have "v = Deny \<longleftrightarrow> (\<exists>path hash r. subject (asks_exec ev) wo env = Some (path, hash) \<and>
       hash \<notin> mo_cached d \<union> mo_listed tbl d \<and> \<not> daemon_is_learning_mode (wo_config wo) \<and>
       answer (wo_config wo) env (mo_ipc (met env d)) = Ret r \<and> decision_of (wo_config wo) r < 0)"
    unfolding event_denied_iff [OF assms(3)] known_reliable [OF assms(1,2)] .
  moreover have "mo_answers d' = mo_answers d @ [(ev_fd ev, v)]" using h assms(3,4) by (simp add: handled_def)
  ultimately show ?thesis by blast
qed

lemma denied_exactly_witness:
  "\<exists>d'. handle_event (demo_world default_config) demo_event (demo_env quiet_gui) (demo_monitor ipc_initial) = Ret d' \<and>
    mo_answers d' = [(7, Deny)]"
proof -
  let ?wo = "demo_world default_config" and ?d = "demo_monitor ipc_initial"
  have inv: "mo_inv (\<lambda>c. c) pad_digest map_of ?wo ?d" by (rule demo_inv [OF demo_idle(1)])
  have "ruling default_config False (answer default_config (demo_env quiet_gui) ipc_initial) = Ret (Deny, False)"
    by (simp add: ruling_def demo_answers demo_decisions demo_not_learning)
  then obtain d' where h: "handle_event ?wo demo_event (demo_env quiet_gui) ?d = Ret d'"
    using demo_handled [OF refl demo_idle(1)] by blast
  show ?thesis
    using denied_exactly [OF inv demo_reliable demo_asks(1) demo_fields(3) h] h
    by (simp add: demo_asks demo_subject demo_members demo_not_learning demo_met demo_answers
        demo_decisions demo_fields)
qed

text \<open>
  C4: content the database lists at some moment is admitted at every later moment of the run,
  under whatever path it then has, without asking the user and without waiting.
\<close>

theorem listed_content_passes_later:
  assumes "mo_inv fed H tbl wo d" "mo_reliable wo d"
    and "run_events (handle_event wo) evs d = Ret d1"
    and "asks ev" "subject (asks_exec ev) wo env = Some (path, hash)"
    and "bytes_to_hex (H (fd_content (en_file env))) \<in> mo_listed tbl d"
  shows "\<exists>d'. handle_event wo ev env d1 = Ret d' \<and> mo_ipc d' = mo_ipc (met env d1) \<and>
    mo_answers d' = mo_answers d1 @ (if en_write_ok env then [(ev_fd ev, Allow)] else [])"
proof -
  have inv: "mo_inv fed H tbl wo d1" using body.run_answers [OF assms(1,3)] by blast
  have rel: "run_relates tbl wo d d1" by (rule run_relates [OF assms(1,3)])
  have "hash = bytes_to_hex (H (fd_content (en_file env)))"
    using subject_key(1) assms(1,5) unfolding mo_inv_def by blast
  then have "known wo d1 hash"
    using known_reliable [OF inv] rel assms(2,6) by (auto simp: run_relates_def)
  then show ?thesis by (rule event_passes_known [OF inv assms(4,5)])
qed

text \<open>
  C5: where the user answers "allow always" to an unknown digest, the event is admitted and the
  database then lists exactly that digest more.
\<close>

theorem allow_always_is_recorded:
  assumes "mo_inv fed H tbl wo d" "mo_reliable wo d" "asks ev"
    and "subject (asks_exec ev) wo env = Some (path, hash)"
    and "hash \<notin> mo_cached d \<union> mo_listed tbl d" "\<not> daemon_is_learning_mode (wo_config wo)"
    and "answer (wo_config wo) env (mo_ipc (met env d)) = Ret LEXEC_RESPONSE_ALLOW_ALWAYS"
  shows "\<exists>d'. handle_event wo ev env d = Ret d' \<and> mo_listed tbl d' = insert hash (mo_listed tbl d) \<and>
    mo_answers d' = mo_answers d @ (if en_write_ok env then [(ev_fd ev, Allow)] else [])"
proof -
  have "decision_of (wo_config wo) LEXEC_RESPONSE_ALLOW_ALWAYS = 1" by (simp add: decision_of_def Let_def)
  then have "event_ruling wo ev env d = Ret (Allow, True)"
    using assms(6,7) assms(5) known_reliable [OF assms(1,2)]
    by (simp add: event_ruling_judged [OF assms(3,4)] ruling_def)
  then obtain d' where h: "handle_event wo ev env d = Ret d'" "handled tbl wo ev env Allow True d d'"
    using handle_event_Ret [OF assms(1)] by blast
  have "subject_hash (asks_exec ev) wo env = hash" using assms(4) by (simp add: subject_hash_def)
  then have "mo_listed tbl d' = insert hash (mo_listed tbl d)"
    using h(2) assms(2) by (auto simp: handled_def)
  then show ?thesis using h assms(3) by (auto simp: handled_def)
qed

lemma allow_always_is_recorded_witness:
  "\<exists>d'. handle_event (demo_world default_config) demo_event
      (demo_env (reply_gui LEXEC_RESPONSE_ALLOW_ALWAYS)) (demo_monitor demo_client) = Ret d' \<and>
    mo_listed map_of d' = {demo_hash} \<and> mo_answers d' = [(7, Allow)]"
  using allow_always_is_recorded [OF demo_inv [OF demo_idle(2)] demo_reliable demo_asks(1),
      where env = "demo_env (reply_gui LEXEC_RESPONSE_ALLOW_ALWAYS)" and path = "''/opt/tool''"
      and hash = demo_hash and g1 = default_config]
  by (simp add: demo_asks demo_subject demo_members demo_not_learning demo_met demo_answers demo_fields)

lemma listed_content_passes_later_witness:
  "\<exists>d1 d'. handle_event (demo_world default_config) demo_event
      (demo_env (reply_gui LEXEC_RESPONSE_ALLOW_ALWAYS)) (demo_monitor demo_client) = Ret d1 \<and>
    handle_event (demo_world default_config) demo_event (demo_env quiet_gui) d1 = Ret d' \<and>
    mo_answers d' = mo_answers d1 @ [(7, Allow)]"
proof -
  let ?wo = "demo_world default_config" and ?gui = "reply_gui LEXEC_RESPONSE_ALLOW_ALWAYS"
  have "ruling default_config False (answer default_config (demo_env ?gui) demo_client) = Ret (Allow, True)"
    by (simp add: ruling_def demo_answers demo_decisions demo_not_learning)
  then obtain d1 where d1: "handle_event ?wo demo_event (demo_env ?gui) (demo_monitor demo_client) = Ret d1"
    and inv: "mo_inv (\<lambda>c. c) pad_digest map_of ?wo d1"
    and h: "handled map_of ?wo demo_event (demo_env ?gui) Allow True (demo_monitor demo_client) d1"
    using demo_handled [OF refl demo_idle(2)] by blast
  have rel: "mo_reliable ?wo d1" and "demo_hash \<in> mo_listed map_of d1"
    using h demo_reliable by (auto simp: handled_def subject_hash_def demo_asks demo_subject)
  then have l: "bytes_to_hex (pad_digest (fd_content (en_file (demo_env quiet_gui)))) \<in> mo_listed map_of d1"
    by (simp add: demo_hash_def demo_env_def demo_file_def)
  have s: "subject (asks_exec demo_event) ?wo (demo_env quiet_gui) = Some (''/opt/tool'', demo_hash)"
    by (simp add: demo_asks demo_subject)
  show ?thesis
    using listed_content_passes_later [OF inv rel run_events.simps(1) demo_asks(1) s l] d1
    by (auto simp: demo_fields)
qed

text \<open>
  C6: a cache that holds only digests of the database does so throughout every run of the
  loop, and the database never loses a digest, where SQLite does not fail.
\<close>

theorem cache_stays_coherent:
  assumes "mo_inv fed H tbl wo d" "g_running d" "mo_reliable wo d" "mo_cached d \<subseteq> mo_listed tbl d"
    and "fanotify_event_loop wo xs d = Ret r"
  shows "mo_cached (final_state r) \<subseteq> mo_listed tbl (final_state r) \<and>
    mo_listed tbl d \<subseteq> mo_listed tbl (final_state r) \<and> mo_inv fed H tbl wo (final_state r)"
proof -
  obtain d' where "r = loop_end xs d'" "mo_inv fed H tbl wo d'" "run_relates tbl wo d d'"
    using assms(1,2,5) by (rule loop_returns)
  then show ?thesis using loop_end_final [of xs d'] assms(3,4) by (auto simp: run_relates_def)
qed

lemma cache_stays_coherent_witness:
  "\<exists>r. fanotify_event_loop (demo_world default_config)
      [In_events [(demo_event, demo_env quiet_gui)]] (demo_monitor ipc_initial) = Ret r \<and>
    mo_cached (final_state r) \<subseteq> mo_listed map_of (final_state r)"
proof -
  let ?wo = "demo_world default_config" and ?d = "demo_monitor ipc_initial"
  let ?xs = "[In_events [(demo_event, demo_env quiet_gui)]]"
  have inv: "mo_inv (\<lambda>c. c) pad_digest map_of ?wo ?d" by (rule demo_inv [OF demo_idle(1)])
  have "ruling default_config False (answer default_config (demo_env quiet_gui) ipc_initial) = Ret (Deny, False)"
    by (simp add: ruling_def demo_answers demo_decisions demo_not_learning)
  then obtain d' where "handle_event ?wo demo_event (demo_env quiet_gui) ?d = Ret d'"
    using demo_handled [OF refl demo_idle(1)] by blast
  then obtain r where r: "fanotify_event_loop ?wo ?xs ?d = Ret r"
    using loop_run [OF inv demo_fields(7), of ?xs] by (simp add: demo_batch del: accepted.simps)
  have "mo_cached ?d \<subseteq> mo_listed map_of ?d" by (simp add: demo_members)
  from cache_stays_coherent [OF inv demo_fields(7) demo_reliable this r] show ?thesis using r by blast
qed

text \<open>
  C10: without a client, an unknown digest outside learning mode is denied when
  \<open>default_deny\<close> is set and admitted, but never recorded, when it is not.
\<close>

theorem unattended_default:
  assumes "mo_inv fed H tbl wo d" "asks ev" "consults (asks_exec ev) wo env d"
    and "\<not> ipc_has_client (mo_ipc (met env d))"
  shows "\<exists>d'. handle_event wo ev env d = Ret d' \<and> mo_listed tbl d' = mo_listed tbl d \<and>
    mo_answers d' = mo_answers d @ (if en_write_ok env
      then [(ev_fd ev, if default_deny (wo_config wo) \<noteq> 0 then Deny else Allow)] else [])"
proof -
  let ?g = "wo_config wo"
  let ?v = "if default_deny ?g \<noteq> 0 then Deny else Allow"
  obtain path hash where s: "subject (asks_exec ev) wo env = Some (path, hash)"
    and u: "\<not> known wo d hash" "\<not> daemon_is_learning_mode ?g"
    using assms(3) by (auto simp: consults_def split: option.splits)
  have "event_ruling wo ev env d = Ret (?v, False)"
    using u assms(4)
    by (simp add: event_ruling_judged [OF assms(2) s] ruling_def answer_def decision_of_def Let_def
        message_codes daemon_get_default_deny_def)
  then obtain d' where h: "handle_event wo ev env d = Ret d'" "handled tbl wo ev env ?v False d d'"
    using handle_event_Ret [OF assms(1)] by blast
  then show ?thesis using assms(2) by (auto simp: handled_def)
qed

lemma unattended_default_witness:
  "\<exists>d'. handle_event (demo_world default_config) demo_event (demo_env quiet_gui) (demo_monitor ipc_initial) = Ret d' \<and>
    mo_answers d' = [(7, Deny)] \<and> mo_listed map_of d' = {}"
proof -
  have c: "consults (asks_exec demo_event) (demo_world default_config) (demo_env quiet_gui) (demo_monitor ipc_initial)"
    using known_reliable [OF demo_inv [OF demo_idle(1)] demo_reliable]
    by (simp add: consults_def demo_asks demo_subject demo_members demo_fields demo_not_learning)
  have n: "\<not> ipc_has_client (mo_ipc (met (demo_env quiet_gui) (demo_monitor ipc_initial)))"
    by (simp add: demo_met demo_fields ipc_has_client_def ipc_initial_def)
  have "default_deny default_config \<noteq> 0" by (simp add: default_config_def)
  with unattended_default [OF demo_inv [OF demo_idle(1)] demo_asks(1) c n]
  show ?thesis by (auto simp: demo_fields demo_members)
qed





text \<open>
  C32: the inner loop hands the events of a buffer to the handlers up to the first one of another
  metadata version; that one and all after it get neither an answer nor a \<open>close\<close>.
\<close>

theorem buffer_until_foreign_version:
  assumes "whole_records evs"
  shows "process_events wo (buffer_length evs) evs d =
    run_events (handle_event wo) (takeWhile (\<lambda>(ev, env). ev_vers ev = FANOTIFY_METADATA_VERSION) evs) d"
  by (simp add: process_events_run accepted_whole [OF assms])

lemma buffer_until_foreign_version_witness:
  "process_events (demo_world default_config) 48 [(demo_event\<lparr>ev_vers := 2\<rparr>, demo_env quiet_gui), (demo_event, demo_env quiet_gui)]
     (demo_monitor ipc_initial) = Ret (demo_monitor ipc_initial)"
proof -
  let ?evs = "[(demo_event\<lparr>ev_vers := 2\<rparr>, demo_env quiet_gui), (demo_event, demo_env quiet_gui)]"
  have "whole_records ?evs" "buffer_length ?evs = 48"
    by (simp_all add: whole_records_def buffer_length_def demo_event_def fan_consts)
  then show ?thesis
    using buffer_until_foreign_version [of ?evs] by (simp add: FANOTIFY_METADATA_VERSION_def)
qed

section \<open>Daemon and client together\<close>

text \<open>
  C9: the client's answers are the codes 100 to 102, the daemon knows 1 to 3: whichever button
  the user presses, the daemon falls back to its default and records nothing.
\<close>

theorem shipped_client_cannot_decide:
  assumes "mo_inv fed H tbl wo d" "asks ev" "consults (asks_exec ev) wo env d"
    and "gu_sent (on_dialog_response True i b rid gui) = gu_sent gui @ [(s, reply)]"
    and "answer (wo_config wo) env (mo_ipc (met env d)) = Ret (rs_response reply)"
  shows "\<exists>d'. handle_event wo ev env d = Ret d' \<and> mo_listed tbl d' = mo_listed tbl d \<and>
    mo_answers d' = mo_answers d @ (if en_write_ok env
      then [(ev_fd ev, if default_deny (wo_config wo) \<noteq> 0 then Deny else Allow)] else [])"
proof -
  let ?g = "wo_config wo"
  let ?v = "if default_deny ?g \<noteq> 0 then Deny else Allow"
  obtain path hash where sub: "subject (asks_exec ev) wo env = Some (path, hash)"
    and u: "\<not> known wo d hash" "\<not> daemon_is_learning_mode ?g"
    using assms(3) by (auto simp: consults_def split: option.splits)
  have "rs_response reply = MSG_ALLOW_ONCE \<or> rs_response reply = MSG_ALLOW_ALWAYS \<or> rs_response reply = MSG_DENY"
    using assms(4) by (auto simp: on_dialog_response_def send_response_def Let_def split: if_splits)
  then have "decision_of ?g (rs_response reply) = (if default_deny ?g \<noteq> 0 then - 1 else 0)"
    by (auto simp: decision_of_def message_codes daemon_get_default_deny_def)
  then have "event_ruling wo ev env d = Ret (?v, False)"
    using u assms(5) by (simp add: event_ruling_judged [OF assms(2) sub] ruling_def)
  then obtain d' where h: "handle_event wo ev env d = Ret d'" "handled tbl wo ev env ?v False d d'"
    using handle_event_Ret [OF assms(1)] by blast
  then show ?thesis using assms(2) by (auto simp: handled_def)
qed

lemma shipped_client_cannot_decide_witness:
  "\<exists>d'. handle_event (demo_world default_config) demo_event (demo_env (reply_gui MSG_ALLOW_ALWAYS))
      (demo_monitor demo_client) = Ret d' \<and> mo_answers d' = [(7, Deny)] \<and> mo_listed map_of d' = {}"
proof -
  let ?env = "demo_env (reply_gui MSG_ALLOW_ALWAYS)"
  let ?gui = "gui_initial\<lparr>gu_connected := True, gu_socket := 5\<rparr>"
  have c: "consults (asks_exec demo_event) (demo_world default_config) ?env (demo_monitor demo_client)"
    using known_reliable [OF demo_inv [OF demo_idle(2)] demo_reliable]
    by (simp add: consults_def demo_asks demo_subject demo_members demo_fields demo_not_learning)
  have g: "gu_sent (on_dialog_response True 0 2 1 ?gui) =
      gu_sent ?gui @ [(5, \<lparr>rs_request_id = 1, rs_response = MSG_ALLOW_ALWAYS\<rparr>)]"
    by (simp add: on_dialog_response_def send_response_def Let_def gui_initial_def)
  have n: "answer (wo_config (demo_world default_config)) ?env (mo_ipc (met ?env (demo_monitor demo_client)))
      = Ret (rs_response \<lparr>rs_request_id = 1, rs_response = MSG_ALLOW_ALWAYS\<rparr>)"
    by (simp add: demo_met demo_fields demo_answers)
  have "default_deny default_config \<noteq> 0" by (simp add: default_config_def)
  with shipped_client_cannot_decide [OF demo_inv [OF demo_idle(2)] demo_asks(1) c g n]
  show ?thesis by (auto simp: demo_fields demo_members)
qed



section \<open>The whole daemon\<close>







text \<open>
  SIGHUP, which the service's reload sends, ends the event loop like SIGINT and SIGTERM: the
  loop returns without handling any further event.
\<close>

theorem handled_signal_stops_loop:
  assumes "sig \<noteq> SIGPIPE"
  shows "fanotify_event_loop wo xs (deliver_signal sig d) = Ret (Stopped (d\<lparr>g_running := False\<rparr>))"
proof -
  have "deliver_signal sig d = d\<lparr>g_running := False\<rparr>"
    using assms by (cases sig) (simp_all add: deliver_signal_def signal_handler_def fanotify_stop_def)
  then show ?thesis by (simp add: loop_stopped)
qed

lemma handled_signal_stops_loop_witness:
  "fanotify_event_loop (demo_world default_config) [In_events [(demo_event, demo_env quiet_gui)]]
     (deliver_signal SIGHUP (demo_monitor ipc_initial)) =
   Ret (Stopped ((demo_monitor ipc_initial)\<lparr>g_running := False\<rparr>))"
  by (rule handled_signal_stops_loop) simp

text \<open>
  C7: permissions survive the daemon. Whatever the database lists when a daemon ends, in order or
  not, the next daemon on the same file admits that content while it serves, without asking the
  user, however it was configured and whatever it has been asked before.
\<close>

theorem permissions_survive_restart:
  assumes "sha256_spec sha fed H" "sqlite_spec sql tbl" "sqlite_never_fails sql" "spec_create sql tbl"
    and "g_db (mo_whitelist d1) = Some db"
    and "load_config (ho_files ho) (ho_options ho) default_config = Ret (Args_ok g)"
    and "daemon_main fuel sha (reopen sql (db_path g) db) os ho = Ret (Serving d2)"
    and "wo = \<lparr>wo_sha = sha, wo_sql = reopen sql (db_path g) db, wo_os = os, wo_config = g\<rparr>"
    and "asks ev" "subject (asks_exec ev) wo env = Some (path, hash)"
    and "bytes_to_hex (H (fd_content (en_file env))) \<in> mo_listed tbl d1"
  shows "\<exists>d3. handle_event wo ev env d2 = Ret d3 \<and> mo_ipc d3 = mo_ipc (met env d2) \<and>
    mo_answers d3 = mo_answers d2 @ (if en_write_ok env then [(ev_fd ev, Allow)] else [])"
proof -
  let ?sql = "reopen sql (db_path g) db"
  have sql: "sqlite_spec ?sql tbl" "spec_create ?sql tbl" "sqlite_never_fails ?sql" using assms(2-4) by simp_all
  obtain g' d0 fan_fd where load: "load_config (ho_files ho) (ho_options ho) default_config = Ret (Args_ok g')"
    and run: "main_ready fuel sha ?sql os ho g' d0 fan_fd"
    "mo_inv fed H tbl \<lparr>wo_sha = sha, wo_sql = ?sql, wo_os = os, wo_config = g'\<rparr> d2"
    "run_relates tbl \<lparr>wo_sha = sha, wo_sql = ?sql, wo_os = os, wo_config = g'\<rparr> d0 d2"
    using assms(1) sql(1) assms(7) by (rule serving_from_ready)
  have "g' = g" using load assms(6) by simp
  then have ready: "main_ready fuel sha ?sql os ho g d0 fan_fd"
    and inv: "mo_inv fed H tbl wo d2" and rel: "run_relates tbl wo d0 d2"
    using run unfolding assms(8) by simp_all
  have "mo_listed tbl d1 \<subseteq> mo_listed tbl d0"
    using main_ready_listed [OF sql(1,2) reopen_simps(1) ready] assms(5) by (simp add: mo_listed_def wl_table_def)
  moreover have "hash = bytes_to_hex (H (fd_content (en_file env)))"
    using subject_key(1) [of wo fed H] assms(1,8,10) by simp
  moreover have "mo_reliable wo d0" using main_ready_inv [OF ready assms(1) sql(1) assms(8)] sql(3) by blast
  ultimately have "known wo d2 hash"
    using known_reliable [OF inv] rel assms(11) by (auto simp: run_relates_def)
  then show ?thesis by (rule event_passes_known [OF inv assms(9,10)])
qed

lemma permissions_survive_restart_witness:
  "\<exists>d1 db d2 d3.
    handle_event (demo_world default_config) demo_event
      (demo_env (reply_gui LEXEC_RESPONSE_ALLOW_ALWAYS)) (demo_monitor demo_client) = Ret d1 \<and>
    g_db (mo_whitelist d1) = Some db \<and>
    daemon_main 4095 pad_api (reopen ref_sqlite (db_path default_config) db) demo_os (demo_host [] [In_again]) =
      Ret (Serving d2) \<and>
    handle_event (demo_world default_config\<lparr>wo_sql := reopen ref_sqlite (db_path default_config) db\<rparr>)
      demo_event (demo_env quiet_gui) d2 = Ret d3 \<and>
    mo_answers d3 = mo_answers d2 @ [(7, Allow)]"
proof -
  let ?wo = "demo_world default_config" and ?gui = "reply_gui LEXEC_RESPONSE_ALLOW_ALWAYS"
  have "ruling default_config False (answer default_config (demo_env ?gui) demo_client) = Ret (Allow, True)"
    by (simp add: ruling_def demo_answers demo_decisions demo_not_learning)
  then obtain d1 where d1: "handle_event ?wo demo_event (demo_env ?gui) (demo_monitor demo_client) = Ret d1"
    and h: "handled map_of ?wo demo_event (demo_env ?gui) Allow True (demo_monitor demo_client) d1"
    using demo_handled [OF refl demo_idle(2)] by blast
  have "mo_reliable ?wo d1" and "demo_hash \<in> mo_listed map_of d1"
    using h demo_reliable by (auto simp: handled_def subject_hash_def demo_asks demo_subject)
  then obtain db where db: "g_db (mo_whitelist d1) = Some db"
    and l: "bytes_to_hex (pad_digest (fd_content (en_file (demo_env quiet_gui)))) \<in> mo_listed map_of d1"
    by (auto simp: mo_listed_def wl_table_def demo_hash_def demo_env_def demo_file_def split: option.splits)
  let ?sql = "reopen ref_sqlite (db_path default_config) db"
  let ?wo2 = "\<lparr>wo_sha = pad_api, wo_sql = ?sql, wo_os = demo_os, wo_config = default_config\<rparr>"
  obtain d2 where d2: "daemon_main 4095 pad_api ?sql demo_os (demo_host [] [In_again]) = Ret (Serving d2)"
    using demo_main_serves_again by blast
  have s: "subject (asks_exec demo_event) ?wo2 (demo_env quiet_gui) = Some (''/opt/tool'', demo_hash)"
    using demo_subject [OF refl, where gui = quiet_gui] demo_asks(2) by (simp add: demo_world_def subject_database)
  have w: "?wo\<lparr>wo_sql := ?sql\<rparr> = ?wo2" by (simp add: demo_world_def)
  show ?thesis
    using permissions_survive_restart [OF pad_api_spec ref_sqlite_spec ref_sqlite_never_fails ref_sqlite_create
        db demo_load(1) d2 refl demo_asks(1) s l] d1 db d2 by (auto simp: demo_fields w)
qed

end
